theory Spec2Isabelle
  imports Complex_Main "HOL-Library.AList" "HOL-Library.Sublist" "HOL-Library.Char_ord"
    "HOL-Library.List_Lexorder" "HOL-Library.Multiset"
begin

section \<open>Errors of the tools\<close>

text \<open>
  The three tools are Python scripts; every exception they can raise on the paths modelled
  here is a value of this type. The spec's names are given where they differ from the
  exception the code raises.
\<close>

datatype error =
    AssertionError
  | RuntimeError_NoRecords
  | ArgparseError
  | JSONDecodeError string
  | FileNotFoundError string nat     \<comment> \<open>the spec's PathResolutionError: raw filename, number of hits\<close>
  | ValueError_BadBinShape string nat nat  \<comment> \<open>the spec's MalformedPointFileError: path, size, point width\<close>
  | ZeroDivisionError
  | IndexError
  | NotFloatData string              \<comment> \<open>model boundary: a point read of a file that holds no floats\<close>
  | TypeError_float
  | ValueError_float string
  | IsADirectoryError string
  | OSError_open string

section \<open>Frame-Transform Engine (tools/viz\_nusc\_like.py)\<close>

text \<open>
  Numbers are modelled as reals: the rounding of float64 arithmetic is outside the model.
  A 3-vector is a triple, a 3x3 matrix a triple of rows, a 4x4 matrix a quadruple of rows.
\<close>

type_synonym vec3 = "real \<times> real \<times> real"
type_synonym mat3 = "vec3 \<times> vec3 \<times> vec3"
type_synonym vec4 = "real \<times> real \<times> real \<times> real"
type_synonym mat4 = "vec4 \<times> vec4 \<times> vec4 \<times> vec4"
type_synonym quat = "real \<times> real \<times> real \<times> real"

definition eye3 :: mat3 where
  "eye3 = ((1, 0, 0), (0, 1, 0), (0, 0, 1))"

definition eye4 :: mat4 where
  "eye4 = ((1, 0, 0, 0), (0, 1, 0, 0), (0, 0, 1, 0), (0, 0, 0, 1))"

text \<open>
  \<^verbatim>\<open>quat_wxyz_to_R\<close> calls \<^verbatim>\<open>transforms3d.quaternions.quat2mat\<close>, a library outside
  the repository. Its formula (scalar-first quaternion, scaled by \<open>2 / |q|\<^sup>2\<close>, the
  identity below the library's epsilon) is written out here; \<open>make_T\<close> takes the
  conversion as a parameter.
\<close>

definition FLOAT_EPS :: real where
  "FLOAT_EPS = 1 / 2 ^ 52"

fun quat2mat :: "quat \<Rightarrow> mat3" where
  "quat2mat (w, x, y, z) =
     (let Nq = w * w + x * x + y * y + z * z in
      if Nq < FLOAT_EPS then eye3
      else
        let s = 2 / Nq;
            X = x * s; Y = y * s; Z = z * s;
            wX = w * X; wY = w * Y; wZ = w * Z;
            xX = x * X; xY = x * Y; xZ = x * Z;
            yY = y * Y; yZ = y * Z; zZ = z * Z
        in ((1 - (yY + zZ), xY - wZ, xZ + wY),
            (xY + wZ, 1 - (xX + zZ), yZ - wX),
            (xZ - wY, yZ + wX, 1 - (xX + yY))))"

definition quat_wxyz_to_R :: "(quat \<Rightarrow> mat3) \<Rightarrow> quat \<Rightarrow> mat3" where
  "quat_wxyz_to_R q2m q = q2m q"

text \<open>\<^verbatim>\<open>T = eye(4); T[:3,:3] = R; T[:3,3] = t\<close>\<close>

fun set_block :: "mat3 \<Rightarrow> vec3 \<Rightarrow> mat4 \<Rightarrow> mat4" where
  "set_block ((r00, r01, r02), (r10, r11, r12), (r20, r21, r22)) (t0, t1, t2)
             ((_, _, _, _), (_, _, _, _), (_, _, _, _), bottom) =
     ((r00, r01, r02, t0), (r10, r11, r12, t1), (r20, r21, r22, t2), bottom)"

definition make_T :: "(quat \<Rightarrow> mat3) \<Rightarrow> vec3 \<Rightarrow> quat \<Rightarrow> mat4" where
  "make_T q2m t q = set_block (quat_wxyz_to_R q2m q) t eye4"

text \<open>The slices \<^verbatim>\<open>T[:3,:3]\<close> and \<^verbatim>\<open>T[:3,3]\<close>.\<close>

fun rot_block :: "mat4 \<Rightarrow> mat3" where
  "rot_block ((a00, a01, a02, _), (a10, a11, a12, _), (a20, a21, a22, _), _) =
     ((a00, a01, a02), (a10, a11, a12), (a20, a21, a22))"

fun trans_col :: "mat4 \<Rightarrow> vec3" where
  "trans_col ((_, _, _, t0), (_, _, _, t1), (_, _, _, t2), _) = (t0, t1, t2)"

fun transpose3 :: "mat3 \<Rightarrow> mat3" where
  "transpose3 ((a, b, c), (d, e, f), (g, h, i)) = ((a, d, g), (b, e, h), (c, f, i))"

fun dot3 :: "vec3 \<Rightarrow> vec3 \<Rightarrow> real" where
  "dot3 (a, b, c) (x, y, z) = a * x + b * y + c * z"

fun matvec3 :: "mat3 \<Rightarrow> vec3 \<Rightarrow> vec3" where
  "matvec3 (r0, r1, r2) v = (dot3 r0 v, dot3 r1 v, dot3 r2 v)"

fun neg3 :: "vec3 \<Rightarrow> vec3" where
  "neg3 (a, b, c) = (- a, - b, - c)"

fun matmul3 :: "mat3 \<Rightarrow> mat3 \<Rightarrow> mat3" where
  "matmul3 (r0, r1, r2) B =
     (case transpose3 B of (c0, c1, c2) \<Rightarrow>
        ((dot3 r0 c0, dot3 r0 c1, dot3 r0 c2),
         (dot3 r1 c0, dot3 r1 c1, dot3 r1 c2),
         (dot3 r2 c0, dot3 r2 c1, dot3 r2 c2)))"

fun neg_mat3 :: "mat3 \<Rightarrow> mat3" where
  "neg_mat3 (r0, r1, r2) = (neg3 r0, neg3 r1, neg3 r2)"

text \<open>
  \<^verbatim>\<open>Ti = eye(4); Ti[:3,:3] = R.T; Ti[:3,3] = -R.T @ t\<close>: unary minus binds tighter
  than \<^verbatim>\<open>@\<close>, so the transposed block is negated and then applied to \<open>t\<close>.
\<close>

definition inv_T :: "mat4 \<Rightarrow> mat4" where
  "inv_T T =
     (let R = rot_block T; t = trans_col T
      in set_block (transpose3 R) (matvec3 (neg_mat3 (transpose3 R)) t) eye4)"

text \<open>The product \<^verbatim>\<open>A @ B\<close> of two 4x4 arrays.\<close>

fun dot4 :: "vec4 \<Rightarrow> vec4 \<Rightarrow> real" where
  "dot4 (a, b, c, d) (x, y, z, u) = a * x + b * y + c * z + d * u"

fun transpose4 :: "mat4 \<Rightarrow> mat4" where
  "transpose4 ((a0, a1, a2, a3), (b0, b1, b2, b3), (c0, c1, c2, c3), (d0, d1, d2, d3)) =
     ((a0, b0, c0, d0), (a1, b1, c1, d1), (a2, b2, c2, d2), (a3, b3, c3, d3))"

fun row_times :: "vec4 \<Rightarrow> mat4 \<Rightarrow> vec4" where
  "row_times r (c0, c1, c2, c3) = (dot4 r c0, dot4 r c1, dot4 r c2, dot4 r c3)"

fun matmul :: "mat4 \<Rightarrow> mat4 \<Rightarrow> mat4" where
  "matmul (r0, r1, r2, r3) B =
     (let C = transpose4 B in (row_times r0 C, row_times r1 C, row_times r2 C, row_times r3 C))"

definition quat_norm_sq :: "quat \<Rightarrow> real" where
  "quat_norm_sq q = (case q of (w, x, y, z) \<Rightarrow> w * w + x * x + y * y + z * z)"

section \<open>Frame Replay Loop: the sample cursor (tools/viz\_nusc\_like.py)\<close>

text \<open>
  The state of \<^verbatim>\<open>NuscVisualizer\<close> that navigation touches: the sample table, the
  cursor \<^verbatim>\<open>idx\<close> (a Python int, so it can be negative) and the first-render flag.
  What \<^verbatim>\<open>load_frame_data\<close> does after it has picked the sample (table lookups, the
  transforms, reading the point file, building the boxes) never assigns \<^verbatim>\<open>self.idx\<close>;
  it is the parameter \<open>frame_of\<close>, which may fail.
\<close>

record 's visualizer =
  samples :: "'s list"
  idx :: int
  first_render :: bool

text \<open>
  \<^verbatim>\<open>if self.idx < 0: self.idx = 0\<close>, then
  \<^verbatim>\<open>if self.idx >= len(self.samples): self.idx = len(self.samples) - 1\<close>.
\<close>

definition bounds_check :: "'s visualizer \<Rightarrow> 's visualizer" where
  "bounds_check v =
     (let v1 = (if idx v < 0 then v\<lparr>idx := 0\<rparr> else v);
          n = int (length (samples v1))
      in if idx v1 \<ge> n then v1\<lparr>idx := n - 1\<rparr> else v1)"

text \<open>Python list indexing: a negative index counts from the end, out of range raises.\<close>

definition py_index :: "'a list \<Rightarrow> int \<Rightarrow> error + 'a" where
  "py_index xs i =
     (if 0 \<le> i \<and> i < int (length xs) then Inr (xs ! nat i)
      else if i < 0 \<and> - int (length xs) \<le> i then Inr (xs ! nat (int (length xs) + i))
      else Inl IndexError)"

definition load_frame_data ::
    "('s \<Rightarrow> error + 'f) \<Rightarrow> 's visualizer \<Rightarrow> 's visualizer \<times> (error + 'f)" where
  "load_frame_data frame_of v =
     (let v' = bounds_check v in
      case py_index (samples v') (idx v') of
        Inl e \<Rightarrow> (v', Inl e)
      | Inr s \<Rightarrow> (v', frame_of s))"

text \<open>
  \<^verbatim>\<open>update_renderer\<close>: the renderer calls around \<^verbatim>\<open>load_frame_data\<close> touch only the
  window; an exception of \<^verbatim>\<open>load_frame_data\<close> leaves before the flag is cleared.
\<close>

definition update_renderer ::
    "('s \<Rightarrow> error + 'f) \<Rightarrow> 's visualizer \<Rightarrow> 's visualizer \<times> (error + 'f)" where
  "update_renderer frame_of v =
     (case load_frame_data frame_of v of
        (v', Inl e) \<Rightarrow> (v', Inl e)
      | (v', Inr f) \<Rightarrow> (v'\<lparr>first_render := False\<rparr>, Inr f))"

text \<open>
  The key callbacks. \<open>action\<close> is \<open>None\<close> for the one-argument callback style;
  otherwise only \<open>1\<close> (key down) navigates. The result is the new state and what the
  frame load gave, or \<open>None\<close> when the event was ignored (\<^verbatim>\<open>return False\<close>).
\<close>

definition on_right ::
    "('s \<Rightarrow> error + 'f) \<Rightarrow> int option \<Rightarrow> 's visualizer \<Rightarrow> 's visualizer \<times> (error + 'f) option" where
  "on_right frame_of action v =
     (if action \<noteq> None \<and> action \<noteq> Some 1 then (v, None)
      else case update_renderer frame_of (v\<lparr>idx := idx v + 1\<rparr>) of (v', r) \<Rightarrow> (v', Some r))"

definition on_left ::
    "('s \<Rightarrow> error + 'f) \<Rightarrow> int option \<Rightarrow> 's visualizer \<Rightarrow> 's visualizer \<times> (error + 'f) option" where
  "on_left frame_of action v =
     (if action \<noteq> None \<and> action \<noteq> Some 1 then (v, None)
      else case update_renderer frame_of (v\<lparr>idx := idx v - 1\<rparr>) of (v', r) \<Rightarrow> (v', Some r))"

text \<open>A rotation block: its transpose is its inverse on both sides.\<close>

definition orthonormal :: "mat3 \<Rightarrow> bool" where
  "orthonormal R \<longleftrightarrow> matmul3 R (transpose3 R) = eye3 \<and> matmul3 (transpose3 R) R = eye3"


section \<open>Strings and paths\<close>

text \<open>
  Strings are byte strings. \<^verbatim>\<open>str.lower\<close> is modelled on the ASCII letters; the
  separator characters are \<open>/\<close> and the backslash (code \<open>0x5C\<close>).
\<close>

definition backslash :: char where
  "backslash = CHR 0x5C"

definition slash :: char where
  "slash = CHR ''/''"

definition lower_char :: "char \<Rightarrow> char" where
  "lower_char c =
     (case map_of (zip ''ABCDEFGHIJKLMNOPQRSTUVWXYZ'' ''abcdefghijklmnopqrstuvwxyz'') c of
        Some d \<Rightarrow> d
      | None \<Rightarrow> c)"

definition lower :: "string \<Rightarrow> string" where
  "lower s = map lower_char s"

text \<open>\<^verbatim>\<open>a in b\<close> on strings: \<open>a\<close> occurs in \<open>b\<close> as a contiguous block.\<close>

fun contains :: "string \<Rightarrow> string \<Rightarrow> bool" where
  "contains pat [] = (pat = [])"
| "contains pat (c # cs) = (prefix pat (c # cs) \<or> contains pat cs)"

text \<open>\<^verbatim>\<open>s.replace("\\", "/").lstrip("/")\<close> (tools/shift\_carla.py, \<^verbatim>\<open>norm_rel_path\<close>).\<close>

definition norm_rel_path :: "string \<Rightarrow> string" where
  "norm_rel_path s =
     dropWhile (\<lambda>c. c = slash) (map (\<lambda>c. if c = backslash then slash else c) s)"

text \<open>
  \<^verbatim>\<open>os.path.join\<close> of two components and \<^verbatim>\<open>os.path.basename\<close>, as \<^verbatim>\<open>posixpath\<close>
  defines them: an absolute second component replaces the first; a separator is inserted
  unless the first is empty or ends with one.
\<close>

definition path_join :: "string \<Rightarrow> string \<Rightarrow> string" where
  "path_join a b =
     (if prefix [slash] b then b
      else if a = [] \<or> last a = slash then a @ b
      else a @ [slash] @ b)"

definition basename :: "string \<Rightarrow> string" where
  "basename p = rev (takeWhile (\<lambda>c. c \<noteq> slash) (rev p))"

section \<open>Path-Namespace Rewriter and Info Aggregator (tools/create\_carla\_train\_infos.py)\<close>

text \<open>
  \<^verbatim>\<open>pathlib\<close>'s pure POSIX paths: a path is a root (empty, \<open>/\<close>, or \<open>//\<close> for exactly
  two leading slashes) and its components, with empty and \<open>.\<close> components dropped.
  \<^verbatim>\<open>a / b\<close> is \<open>b\<close> when \<open>b\<close> has a root, otherwise the components are appended.
  \<^verbatim>\<open>str\<close> joins the components with \<open>/\<close> after the root; the empty path prints as \<open>.\<close>.
\<close>

fun split_slash :: "string \<Rightarrow> string list" where
  "split_slash [] = [[]]"
| "split_slash (c # cs) =
     (if c = slash then [] # split_slash cs
      else case split_slash cs of
             w # ws \<Rightarrow> (c # w) # ws
           | [] \<Rightarrow> [[c]])"

definition path_parts :: "string \<Rightarrow> string list" where
  "path_parts s = filter (\<lambda>w. w \<noteq> [] \<and> w \<noteq> ''.'') (split_slash s)"

definition path_root :: "string \<Rightarrow> string" where
  "path_root s =
     (if prefix [slash, slash] s \<and> \<not> prefix [slash, slash, slash] s then [slash, slash]
      else if prefix [slash] s then [slash]
      else [])"

type_synonym pure_path = "string \<times> string list"

definition Path :: "string \<Rightarrow> pure_path" where
  "Path s = (path_root s, path_parts s)"

definition path_div :: "pure_path \<Rightarrow> string \<Rightarrow> pure_path" where
  "path_div p s = (if path_root s \<noteq> [] then Path s else (fst p, snd p @ path_parts s))"

fun join_slash :: "string list \<Rightarrow> string" where
  "join_slash [] = []"
| "join_slash [w] = w"
| "join_slash (w # ws) = w @ [slash] @ join_slash ws"

definition path_str :: "pure_path \<Rightarrow> string" where
  "path_str p = (if fst p = [] \<and> snd p = [] then ''.'' else fst p @ join_slash (snd p))"

text \<open>
  \<^verbatim>\<open>prefix = Path("carla") / "nusc_like_multi" / rec.name\<close> and
  \<^verbatim>\<open>info["lidar_path"] = str(prefix / info["lidar_path"])\<close>.
\<close>

definition rewrite_lidar_path :: "string \<Rightarrow> string \<Rightarrow> string" where
  "rewrite_lidar_path rec_name lp =
     path_str (path_div (path_div (path_div (Path ''carla'') ''nusc_like_multi'') rec_name) lp)"

text \<open>
  A sample descriptor: its point-cloud path and the rest of its fields, which the aggregator
  never reads. \<^verbatim>\<open>build_infos_for_one_record\<close> calls the training framework and is the
  parameter \<open>build\<close>; it may raise. The directory listing of the records' parent
  (\<^verbatim>\<open>iterdir\<close>, in no particular order) is a list of entry names with their
  \<^verbatim>\<open>is_dir\<close> flag.
\<close>

record 'a info =
  lidar_path :: string
  payload :: 'a

definition record_names :: "(string \<times> bool) list \<Rightarrow> string list" where
  "record_names listing =
     sort (map fst (filter (\<lambda>(name, is_dir). is_dir \<and> prefix ''record_'' name) listing))"

definition rewrite_infos :: "string \<Rightarrow> 'a info list \<Rightarrow> 'a info list" where
  "rewrite_infos rec_name infos =
     map (\<lambda>i. i\<lparr>lidar_path := rewrite_lidar_path rec_name (lidar_path i)\<rparr>) infos"

text \<open>The loop over the records: the collected descriptors and the printed counts.\<close>

fun aggregate ::
    "(string \<Rightarrow> error + 'a info list) \<Rightarrow> 'a info list \<Rightarrow> (string \<times> nat) list \<Rightarrow> string list
       \<Rightarrow> error + 'a info list \<times> (string \<times> nat) list" where
  "aggregate build all_infos printed [] = Inr (all_infos, printed)"
| "aggregate build all_infos printed (r # rs) =
     (case build r of
        Inl e \<Rightarrow> Inl e
      | Inr infos \<Rightarrow>
          aggregate build (all_infos @ rewrite_infos r infos) (printed @ [(r, length infos)]) rs)"

text \<open>
  \<^verbatim>\<open>main\<close> of the aggregator: the result is the pickled list with what was printed,
  or the exception; the output file is written only at the end.
\<close>

definition create_infos_main ::
    "(string \<Rightarrow> error + 'a info list) \<Rightarrow> (string \<times> bool) list option
       \<Rightarrow> error + 'a info list \<times> (string \<times> nat) list" where
  "create_infos_main build carla_root_listing =
     (case carla_root_listing of
        None \<Rightarrow> Inl AssertionError
      | Some listing \<Rightarrow>
          let record_dirs = record_names listing in
          if record_dirs = [] then Inl AssertionError
          else aggregate build [] [] record_dirs)"

section \<open>Idempotent Spatial Corrector (tools/shift\_carla.py): data\<close>

text \<open>
  JSON values as \<^verbatim>\<open>json.load\<close> returns them; numbers are reals. A table file holds a
  JSON array of objects, as the record schema has it; an object is an association list.
\<close>

datatype json =
    JNull
  | JBool bool
  | JNum real
  | JStr string
  | JArr "json list"
  | JObj "(string \<times> json) list"

type_synonym dict = "(string \<times> json) list"

text \<open>
  The file system: an association list from path strings to nodes. A point file holds a
  flat array of float32 values (numbers are reals here: rounding is outside the model), a
  table file a list of rows, any other file text. Paths are compared as strings.
\<close>

datatype content = Floats "real list" | Table "dict list" | Text string

datatype node = Dir | File content

type_synonym fs = "(string \<times> node) list"

definition exists :: "fs \<Rightarrow> string \<Rightarrow> bool" where
  "exists fs p = (map_of fs p \<noteq> None)"

definition isdir :: "fs \<Rightarrow> string \<Rightarrow> bool" where
  "isdir fs p = (map_of fs p = Some Dir)"

definition isfile :: "fs \<Rightarrow> string \<Rightarrow> bool" where
  "isfile fs p = (case map_of fs p of Some (File _) \<Rightarrow> True | _ \<Rightarrow> False)"

definition write_file :: "fs \<Rightarrow> string \<Rightarrow> content \<Rightarrow> fs" where
  "write_file fs p c = AList.update p (File c) fs"

text \<open>
  \<^verbatim>\<open>load_json\<close>: a file that holds no table does not parse. The callers have checked
  \<^verbatim>\<open>isfile\<close> before.
\<close>

definition load_json :: "fs \<Rightarrow> string \<Rightarrow> error + dict list" where
  "load_json fs p =
     (case map_of fs p of
        Some (File (Table rows)) \<Rightarrow> Inr rows
      | Some (File _) \<Rightarrow> Inl (JSONDecodeError p)
      | Some Dir \<Rightarrow> Inl (IsADirectoryError p)
      | None \<Rightarrow> Inl (OSError_open p))"

text \<open>
  \<^verbatim>\<open>np.fromfile(bin_path, dtype=np.float32)\<close>. Reading a file that holds a table or text
  would reinterpret its bytes as floats; the model has no bytes and reports
  \<open>NotFloatData\<close> there.
\<close>

definition fromfile :: "fs \<Rightarrow> string \<Rightarrow> error + real list" where
  "fromfile fs p =
     (case map_of fs p of
        Some (File (Floats arr)) \<Rightarrow> Inr arr
      | Some (File _) \<Rightarrow> Inl (NotFloatData p)
      | Some Dir \<Rightarrow> Inl (IsADirectoryError p)
      | None \<Rightarrow> Inl (OSError_open p))"

section \<open>Spatial Corrector: shifting one point file\<close>

text \<open>\<^verbatim>\<open>arr.reshape(-1, point_dim)\<close>: the rows of \<open>d\<close> values each.\<close>

function reshape :: "nat \<Rightarrow> 'a list \<Rightarrow> 'a list list" where
  "reshape d xs = (if d = 0 \<or> xs = [] then [] else take d xs # reshape d (drop d xs))"
  by pat_completeness auto
termination
  by (relation "measure (\<lambda>(d, xs). length xs)") auto

declare reshape.simps [simp del]

text \<open>\<^verbatim>\<open>pts[:, 2] += dz\<close> on one row.\<close>

definition add_z :: "real \<Rightarrow> real list \<Rightarrow> real list" where
  "add_z dz row = row[2 := row ! 2 + dz]"

definition shift_array :: "nat \<Rightarrow> real \<Rightarrow> real list \<Rightarrow> real list" where
  "shift_array point_dim dz arr = concat (map (add_z dz) (reshape point_dim arr))"

text \<open>
  \<^verbatim>\<open>shift_bin_inplace\<close>: the new file system and the number of points, or the exception
  with the file system as it was. A width of \<open>0\<close> fails in \<^verbatim>\<open>%\<close>, a width below \<open>3\<close>
  in the column index.
\<close>

definition shift_bin_inplace :: "fs \<Rightarrow> string \<Rightarrow> nat \<Rightarrow> real \<Rightarrow> fs \<times> (error + nat)" where
  "shift_bin_inplace fs bin_path point_dim dz =
     (case fromfile fs bin_path of
        Inl e \<Rightarrow> (fs, Inl e)
      | Inr arr \<Rightarrow>
          if point_dim = 0 then (fs, Inl ZeroDivisionError)
          else if length arr mod point_dim \<noteq> 0
            then (fs, Inl (ValueError_BadBinShape bin_path (length arr) point_dim))
          else if point_dim < 3 then (fs, Inl IndexError)
          else (write_file fs bin_path (Floats (shift_array point_dim dz arr)),
                Inr (length (reshape point_dim arr))))"

section \<open>Spatial Corrector: finding the point files\<close>

text \<open>
  \<^verbatim>\<open>is_lidar_row\<close>. The filename of a row is \<^verbatim>\<open>sd.get("filename", "")\<close>. When the value
  is not a JSON string, \<^verbatim>\<open>str\<close> of it (\<open>None\<close>, \<open>True\<close>, a number, a bracketed list
  or dict) neither starts with \<open>samples/\<close> or \<open>sweeps/\<close> nor ends with \<open>.bin\<close>, so no
  matcher accepts it: such a row is given the empty filename.
\<close>

definition get_filename :: "dict \<Rightarrow> string" where
  "get_filename sd = (case map_of sd ''filename'' of Some (JStr s) \<Rightarrow> s | _ \<Rightarrow> [])"

definition is_lidar_row :: "dict \<Rightarrow> bool" where
  "is_lidar_row sd =
     (let fn = lower (get_filename sd) in
      prefix ''samples/lidar_top/'' fn \<or>
      prefix ''sweeps/lidar_top/'' fn \<or>
      (contains ''/lidar_'' fn \<and> suffix ''.bin'' fn) \<or>
      (contains ''lidar'' fn \<and> suffix ''.bin'' fn))"

text \<open>
  The paths of the file system, each once, and the two searches of \<^verbatim>\<open>glob\<close>. The
  record search \<^verbatim>\<open>glob(join(carla_root, "record_*"))\<close> gives the entries directly under
  the corpus root whose name starts with \<open>record_\<close>; the basename search
  \<^verbatim>\<open>glob(join(rec, "**", base), recursive=True)\<close> gives the paths below the record at any
  depth whose last component is \<open>base\<close>. Names are matched literally (wildcard characters
  in a name and the exclusion of dot-directories are not modelled).
\<close>

definition all_paths :: "fs \<Rightarrow> string list" where
  "all_paths fs = remdups (map fst fs)"

definition dir_prefix :: "string \<Rightarrow> string" where
  "dir_prefix d = path_join d []"

definition is_record_path :: "string \<Rightarrow> string \<Rightarrow> bool" where
  "is_record_path carla_root p =
     (prefix (dir_prefix carla_root) p \<and>
      (let name = drop (length (dir_prefix carla_root)) p
       in prefix ''record_'' name \<and> slash \<notin> set name))"

definition record_dirs :: "fs \<Rightarrow> string \<Rightarrow> string list" where
  "record_dirs fs carla_root =
     sort (filter (\<lambda>p. is_record_path carla_root p \<and> isdir fs p) (all_paths fs))"

definition glob_basename :: "fs \<Rightarrow> string \<Rightarrow> string \<Rightarrow> string list" where
  "glob_basename fs rec base =
     filter (\<lambda>p. prefix (dir_prefix rec) p \<and> p \<noteq> dir_prefix rec \<and> basename p = base)
       (all_paths fs)"

text \<open>
  The location of one point file (lines 110 to 128 of \<^verbatim>\<open>main\<close>): the path under the
  record, then the path under the corpus root, then the basename search.
\<close>

definition resolve_bin :: "fs \<Rightarrow> string \<Rightarrow> string \<Rightarrow> string \<Rightarrow> error + string" where
  "resolve_bin fs carla_root rec raw_fn =
     (let fn = norm_rel_path raw_fn;
          candidate1 = path_join rec fn;
          candidate2 = path_join carla_root fn
      in if isfile fs candidate1 then Inr candidate1
         else if isfile fs candidate2 then Inr candidate2
         else
           let hits = glob_basename fs rec (basename fn)
           in if length hits = 1 \<and> isfile fs (hd hits) then Inr (hd hits)
              else Inl (FileNotFoundError raw_fn (length hits)))"

section \<open>Spatial Corrector: the marker file\<close>

text \<open>
  The marker name \<^verbatim>\<open>f".zshifted_{args.delta_z:+.3f}"\<close>: the sign, the integer part and
  three decimals of the offset, rounded to the nearest thousandth (ties to even).
\<close>

definition round_half_even :: "real \<Rightarrow> int" where
  "round_half_even x =
     (let f = \<lfloor>x\<rfloor>; d = x - of_int f
      in if d < 1 / 2 then f
         else if 1 / 2 < d then f + 1
         else if even f then f else f + 1)"

definition digit_char :: "nat \<Rightarrow> char" where
  "digit_char n = ''0123456789'' ! (n mod 10)"

fun show_nat :: "nat \<Rightarrow> string" where
  "show_nat n = (if n < 10 then [digit_char n] else show_nat (n div 10) @ [digit_char n])"

declare show_nat.simps [simp del]

definition format_plus_3f :: "real \<Rightarrow> string" where
  "format_plus_3f x =
     (let m = nat (round_half_even (\<bar>x\<bar> * 1000))
      in (if x < 0 then ''-'' else ''+'') @ show_nat (m div 1000) @ ''.'' @
         [digit_char (m div 100), digit_char (m div 10), digit_char m])"

definition marker_path :: "string \<Rightarrow> real \<Rightarrow> string" where
  "marker_path rec dz = path_join rec (''.zshifted_'' @ format_plus_3f dz)"

section \<open>Spatial Corrector: one record and the run\<close>

record args =
  carla_root :: string
  delta_z :: real
  point_dim :: nat
  version_dir :: string
  lidar_channel :: string
  force :: bool
  dry_run :: bool

text \<open>What the run prints, one value per \<^verbatim>\<open>print\<close>.\<close>

datatype msg =
    Info_found nat
  | Info_args
  | Skip_marker string
  | Warn_missing_version_dir string
  | Warn_missing_file string
  | Warn_no_lidar_entries string
  | Rec_shifting string nat
  | Dry_would_shift nat nat
  | Ok_shifted nat nat nat
  | Summary_dry nat nat
  | Summary_shifted nat nat nat

text \<open>
  The loop over the lidar rows (lines 102 to 136). The state is the file system and the
  counters \<open>rec_bins\<close> and \<open>rec_points\<close>; an exception leaves with the file system as
  the rows before it have left it.
\<close>

fun shift_lidar_entries ::
    "args \<Rightarrow> string \<Rightarrow> fs \<Rightarrow> nat \<times> nat \<Rightarrow> dict list \<Rightarrow> fs \<times> (error + nat \<times> nat)" where
  "shift_lidar_entries a rec fs (rec_bins, rec_points) [] = (fs, Inr (rec_bins, rec_points))"
| "shift_lidar_entries a rec fs (rec_bins, rec_points) (sd # sds) =
     (if get_filename sd = [] then shift_lidar_entries a rec fs (rec_bins, rec_points) sds
      else
        case resolve_bin fs (carla_root a) rec (get_filename sd) of
          Inl e \<Rightarrow> (fs, Inl e)
        | Inr bin_path \<Rightarrow>
            if dry_run a then shift_lidar_entries a rec fs (rec_bins + 1, rec_points) sds
            else
              case shift_bin_inplace fs bin_path (point_dim a) (delta_z a) of
                (fs', Inl e) \<Rightarrow> (fs', Inl e)
              | (fs', Inr npts) \<Rightarrow>
                  shift_lidar_entries a rec fs' (rec_bins + 1, rec_points + npts) sds)"

text \<open>
  \<^verbatim>\<open>float(v)\<close> of a JSON value. The parse of a string is the parameter \<open>float_of_str\<close>
  (\<open>None\<close> where Python raises \<^verbatim>\<open>ValueError\<close>).
\<close>

fun py_float :: "(string \<Rightarrow> real option) \<Rightarrow> json \<Rightarrow> error + real" where
  "py_float float_of_str (JNum r) = Inr r"
| "py_float float_of_str (JBool b) = Inr (if b then 1 else 0)"
| "py_float float_of_str (JStr s) =
     (case float_of_str s of Some r \<Rightarrow> Inr r | None \<Rightarrow> Inl (ValueError_float s))"
| "py_float float_of_str _ = Inl TypeError_float"

text \<open>
  One annotation (lines 142 to 147): the row as it is afterwards and whether it was
  counted. \<^verbatim>\<open>isinstance(tr, list) and len(tr) == 3\<close> is the pattern \<open>JArr [x, y, z]\<close>.
\<close>

fun shift_ann :: "(string \<Rightarrow> real option) \<Rightarrow> bool \<Rightarrow> real \<Rightarrow> dict \<Rightarrow> error + dict \<times> bool" where
  "shift_ann float_of_str dry dz ann =
     (case map_of ann ''translation'' of
        Some (JArr [x, y, z]) \<Rightarrow>
          if dry then Inr (ann, True)
          else (case py_float float_of_str z of
                  Inl e \<Rightarrow> Inl e
                | Inr r \<Rightarrow> Inr (AList.update ''translation'' (JArr [x, y, JNum (r + dz)]) ann, True))
      | _ \<Rightarrow> Inr (ann, False))"

fun shift_annotations ::
    "(string \<Rightarrow> real option) \<Rightarrow> bool \<Rightarrow> real \<Rightarrow> dict list \<Rightarrow> error + dict list \<times> nat" where
  "shift_annotations float_of_str dry dz [] = Inr ([], 0)"
| "shift_annotations float_of_str dry dz (ann # anns) =
     (case shift_ann float_of_str dry dz ann of
        Inl e \<Rightarrow> Inl e
      | Inr (ann', counted) \<Rightarrow>
          (case shift_annotations float_of_str dry dz anns of
             Inl e \<Rightarrow> Inl e
           | Inr (anns', n) \<Rightarrow> Inr (ann' # anns', (if counted then 1 else 0) + n)))"

text \<open>
  The body of the loop over the records (lines 59 to 162), in two parts. The second part
  (lines 82 to 162) is \<open>correct_record\<close>: it is given the marker path, the path of the
  annotation table and the two loaded tables. The result is the new file system, what was
  printed, and either the exception, or \<open>None\<close> for a record left by
  \<^verbatim>\<open>continue\<close>, or the counts \<open>(rec_bins, rec_points, ann_count)\<close>.
\<close>

definition correct_record ::
    "(string \<Rightarrow> real option) \<Rightarrow> args \<Rightarrow> fs \<Rightarrow> string \<Rightarrow> string \<Rightarrow> string \<Rightarrow> dict list \<Rightarrow> dict list
       \<Rightarrow> fs \<times> msg list \<times> (error + (nat \<times> nat \<times> nat) option)" where
  "correct_record float_of_str a fs rec marker sample_ann_p sample_data sample_ann =
     (let lidar_entries = filter is_lidar_row sample_data;
          out1 = [if lidar_entries = [] then Warn_no_lidar_entries rec
                  else Rec_shifting rec (length lidar_entries)]
      in
      case shift_lidar_entries a rec fs (0, 0) lidar_entries of
        (fs1, Inl e) \<Rightarrow> (fs1, out1, Inl e)
      | (fs1, Inr (rec_bins, rec_points)) \<Rightarrow>
      case shift_annotations float_of_str (dry_run a) (delta_z a) sample_ann of
        Inl e \<Rightarrow> (fs1, out1, Inl e)
      | Inr (sample_ann', ann_count) \<Rightarrow>
          if dry_run a
          then (fs1, out1 @ [Dry_would_shift rec_bins ann_count],
                Inr (Some (rec_bins, rec_points, ann_count)))
          else
            let fs2 = write_file fs1 sample_ann_p (Table sample_ann') in
            if isdir fs2 marker then (fs2, out1, Inl (IsADirectoryError marker))
            else (write_file fs2 marker (Text (''shifted'' @ [CHR 0x0A])),
                  out1 @ [Ok_shifted rec_bins rec_points ann_count],
                  Inr (Some (rec_bins, rec_points, ann_count))))"

definition process_record ::
    "(string \<Rightarrow> real option) \<Rightarrow> args \<Rightarrow> fs \<Rightarrow> string
       \<Rightarrow> fs \<times> msg list \<times> (error + (nat \<times> nat \<times> nat) option)" where
  "process_record float_of_str a fs rec =
     (let marker = marker_path rec (delta_z a) in
      if exists fs marker \<and> \<not> force a then (fs, [Skip_marker rec], Inr None)
      else
        let ver = path_join rec (version_dir a) in
        if \<not> isdir fs ver then (fs, [Warn_missing_version_dir rec], Inr None)
        else
          let sample_data_p = path_join ver ''sample_data.json'';
              sample_ann_p = path_join ver ''sample_annotation.json''
          in
          if \<not> isfile fs sample_data_p then (fs, [Warn_missing_file sample_data_p], Inr None)
          else if \<not> isfile fs sample_ann_p then (fs, [Warn_missing_file sample_ann_p], Inr None)
          else
            case load_json fs sample_data_p of
              Inl e \<Rightarrow> (fs, [], Inl e)
            | Inr sample_data \<Rightarrow>
            case load_json fs sample_ann_p of
              Inl e \<Rightarrow> (fs, [], Inl e)
            | Inr sample_ann \<Rightarrow>
                correct_record float_of_str a fs rec marker sample_ann_p sample_data sample_ann)"

fun main_loop ::
    "(string \<Rightarrow> real option) \<Rightarrow> args \<Rightarrow> fs \<Rightarrow> msg list \<Rightarrow> nat \<times> nat \<times> nat \<Rightarrow> string list
       \<Rightarrow> fs \<times> msg list \<times> (error + nat \<times> nat \<times> nat)" where
  "main_loop float_of_str a fs out totals [] = (fs, out, Inr totals)"
| "main_loop float_of_str a fs out (total_bins, total_points, total_ann) (rec # recs) =
     (case process_record float_of_str a fs rec of
        (fs', out', Inl e) \<Rightarrow> (fs', out @ out', Inl e)
      | (fs', out', Inr None) \<Rightarrow>
          main_loop float_of_str a fs' (out @ out') (total_bins, total_points, total_ann) recs
      | (fs', out', Inr (Some (rec_bins, rec_points, ann_count))) \<Rightarrow>
          main_loop float_of_str a fs' (out @ out')
            (total_bins + rec_bins, total_points + rec_points, total_ann + ann_count) recs)"

text \<open>
  \<^verbatim>\<open>main\<close> of the corrector, after \<^verbatim>\<open>abspath\<close>: \<open>carla_root a\<close> is the absolute
  corpus root. \<^verbatim>\<open>argparse\<close> accepts the point widths 4 and 5 only.
\<close>

definition shift_carla_main ::
    "(string \<Rightarrow> real option) \<Rightarrow> args \<Rightarrow> fs \<Rightarrow> fs \<times> msg list \<times> (error + nat \<times> nat \<times> nat)" where
  "shift_carla_main float_of_str a fs =
     (if point_dim a \<noteq> 4 \<and> point_dim a \<noteq> 5 then (fs, [], Inl ArgparseError)
      else if \<not> isdir fs (carla_root a) then (fs, [], Inl AssertionError)
      else
        let rds = record_dirs fs (carla_root a) in
        if rds = [] then (fs, [], Inl RuntimeError_NoRecords)
        else
          case main_loop float_of_str a fs [Info_found (length rds), Info_args] (0, 0, 0) rds of
            (fs', out, Inl e) \<Rightarrow> (fs', out, Inl e)
          | (fs', out, Inr (total_bins, total_points, total_ann)) \<Rightarrow>
              (fs', out @ [if dry_run a then Summary_dry total_bins total_ann
                           else Summary_shifted total_bins total_points total_ann],
               Inr (total_bins, total_points, total_ann)))"

section \<open>Spatial Corrector: notions used to state its properties\<close>

text \<open>
  An annotation the corrector counts: its translation is a list of three values. What
  the row is after a successful correction by \<open>dz\<close>.
\<close>

definition has_translation3 :: "dict \<Rightarrow> bool" where
  "has_translation3 ann =
     (case map_of ann ''translation'' of Some (JArr [x, y, z]) \<Rightarrow> True | _ \<Rightarrow> False)"

definition vertical :: "(string \<Rightarrow> real option) \<Rightarrow> dict \<Rightarrow> real option" where
  "vertical float_of_str ann =
     (case map_of ann ''translation'' of
        Some (JArr [x, y, z]) \<Rightarrow>
          (case py_float float_of_str z of Inr r \<Rightarrow> Some r | Inl e \<Rightarrow> None)
      | _ \<Rightarrow> None)"

definition corrected_ann :: "(string \<Rightarrow> real option) \<Rightarrow> real \<Rightarrow> dict \<Rightarrow> dict" where
  "corrected_ann float_of_str dz ann =
     (case map_of ann ''translation'' of
        Some (JArr [x, y, z]) \<Rightarrow>
          (case py_float float_of_str z of
             Inr r \<Rightarrow> AList.update ''translation'' (JArr [x, y, JNum (r + dz)]) ann
           | Inl e \<Rightarrow> ann)
      | _ \<Rightarrow> ann)"

text \<open>
  The point files the lidar rows of a record resolve to, in row order (a file named by
  two rows is listed twice), and a node after \<open>k\<close> shifts of its array.
\<close>

definition resolved_paths :: "fs \<Rightarrow> string \<Rightarrow> string \<Rightarrow> dict list \<Rightarrow> string list" where
  "resolved_paths fs croot rec sds =
     concat (map (\<lambda>sd. case resolve_bin fs croot rec (get_filename sd) of
                          Inr p \<Rightarrow> [p]
                        | Inl e \<Rightarrow> [])
                 (filter (\<lambda>sd. get_filename sd \<noteq> []) sds))"

fun shift_node :: "nat \<Rightarrow> real \<Rightarrow> nat \<Rightarrow> node \<Rightarrow> node" where
  "shift_node d dz k (File (Floats arr)) = File (Floats ((shift_array d dz ^^ k) arr))"
| "shift_node d dz k n = n"

text \<open>The conditions under which the loop leaves a record by \<^verbatim>\<open>continue\<close>.\<close>

definition skipped :: "args \<Rightarrow> fs \<Rightarrow> string \<Rightarrow> bool" where
  "skipped a fs rec =
     ((exists fs (marker_path rec (delta_z a)) \<and> \<not> force a) \<or>
      \<not> isdir fs (path_join rec (version_dir a)) \<or>
      \<not> isfile fs (path_join (path_join rec (version_dir a)) ''sample_data.json'') \<or>
      \<not> isfile fs (path_join (path_join rec (version_dir a)) ''sample_annotation.json''))"

section \<open>Example inputs\<close>

text \<open>
  A corpus with one record: a sample-data table naming one point file of two points of
  width 4, and one annotation.
\<close>

definition ex_args :: args where
  "ex_args = \<lparr>carla_root = ''/d'', delta_z = 2 / 5, point_dim = 4, version_dir = ''v'',
     lidar_channel = ''LIDAR_TOP'', force = False, dry_run = False\<rparr>"

definition ex_fs :: fs where
  "ex_fs = [(''/d'', Dir), (''/d/record_1'', Dir), (''/d/record_1/v'', Dir),
     (''/d/record_1/v/sample_data.json'',
        File (Table [[(''filename'', JStr ''samples/LIDAR_TOP/a.bin'')]])),
     (''/d/record_1/v/sample_annotation.json'',
        File (Table [[(''translation'', JArr [JNum 1, JNum 2, JNum 1])]])),
     (''/d/record_1/samples/LIDAR_TOP/a.bin'', File (Floats [1, 2, 3, 4, 5, 6, 7, 8]))]"

text \<open>A record in which the only entry named \<open>a.bin\<close> is a directory, and one in which it is a file.\<close>

definition ex_fs_dir_hit :: fs where
  "ex_fs_dir_hit = [(''/d'', Dir), (''/d/record_1'', Dir), (''/d/record_1/x'', Dir),
     (''/d/record_1/x/a.bin'', Dir)]"

definition ex_fs_glob :: fs where
  "ex_fs_glob = [(''/d'', Dir), (''/d/record_1'', Dir), (''/d/record_1/x'', Dir),
     (''/d/record_1/x/a.bin'', File (Floats [1, 2, 3, 4]))]"

text \<open>A record whose sample-data table names a camera file only.\<close>

definition ex_fs_cam :: fs where
  "ex_fs_cam = [(''/d'', Dir), (''/d/record_1'', Dir), (''/d/record_1/v'', Dir),
     (''/d/record_1/v/sample_data.json'',
        File (Table [[(''filename'', JStr ''samples/CAM_FRONT/a.jpg'')]])),
     (''/d/record_1/v/sample_annotation.json'',
        File (Table [[(''translation'', JArr [JNum 1, JNum 2, JNum 1])], [(''size'', JArr [JNum 1])]])),
     (''/d/record_1/samples/LIDAR_TOP/a.bin'', File (Floats [1, 2, 3, 4, 5, 6, 7, 8]))]"

text \<open>A record whose sample-data table names the same point file in two rows.\<close>

definition ex_fs_dup :: fs where
  "ex_fs_dup = [(''/d'', Dir), (''/d/record_1'', Dir), (''/d/record_1/v'', Dir),
     (''/d/record_1/v/sample_data.json'',
        File (Table [[(''filename'', JStr ''samples/LIDAR_TOP/a.bin'')],
                     [(''filename'', JStr ''samples/LIDAR_TOP/a.bin'')]])),
     (''/d/record_1/v/sample_annotation.json'',
        File (Table [[(''translation'', JArr [JNum 1, JNum 2, JNum 1])]])),
     (''/d/record_1/samples/LIDAR_TOP/a.bin'', File (Floats [1, 2, 3, 4, 5, 6, 7, 8]))]"

text \<open>The example corpus after one run with the offset \<open>0.4\<close>.\<close>

definition ex_fs_done :: fs where
  "ex_fs_done = [(''/d'', Dir), (''/d/record_1'', Dir), (''/d/record_1/v'', Dir),
       (''/d/record_1/v/sample_data.json'',
          File (Table [[(''filename'', JStr ''samples/LIDAR_TOP/a.bin'')]])),
       (''/d/record_1/v/sample_annotation.json'',
          File (Table [[(''translation'', JArr [JNum 1, JNum 2, JNum (7 / 5)])]])),
       (''/d/record_1/samples/LIDAR_TOP/a.bin'',
          File (Floats [1, 2, 17 / 5, 4, 5, 6, 37 / 5, 8])),
       (''/d/record_1/.zshifted_+0.400'', File (Text (''shifted'' @ [CHR 0x0A])))]"

section \<open>Spatial Corrector: how a run may change the file system\<close>

text \<open>
  \<open>grown fs fs'\<close>: \<open>fs'\<close> has the directories of \<open>fs\<close> and no others, in the same
  order of listing; nothing that exists in \<open>fs\<close> is missing in \<open>fs'\<close>; and a regular file
  of \<open>fs'\<close> that is not one of \<open>fs\<close> has a path that ends in a digit, as marker paths do.
\<close>

definition grown :: "fs \<Rightarrow> fs \<Rightarrow> bool" where
  "grown fs fs' \<longleftrightarrow>
     (\<forall>p. isdir fs' p = isdir fs p) \<and>
     (\<forall>p. exists fs p \<longrightarrow> exists fs' p) \<and>
     (\<forall>p. isfile fs' p \<longrightarrow> isfile fs p \<or> (p \<noteq> [] \<and> last p \<in> set ''0123456789'')) \<and>
     filter (isdir fs') (all_paths fs') = filter (isdir fs) (all_paths fs)"


section \<open>Properties of the Frame-Transform Engine\<close>

lemma quat2mat_unit:
  assumes "quat_norm_sq (w, x, y, z) = 1"
  shows "quat2mat (w, x, y, z) =
     ((1 - 2 * (y * y + z * z), 2 * (x * y - w * z), 2 * (x * z + w * y)),
      (2 * (x * y + w * z), 1 - 2 * (x * x + z * z), 2 * (y * z - w * x)),
      (2 * (x * z - w * y), 2 * (y * z + w * x), 1 - 2 * (x * x + y * y)))"
proof -
  have N: "w * w + x * x + y * y + z * z = 1" using assms by (simp add: quat_norm_sq_def)
  have "\<not> (1::real) < FLOAT_EPS" by (simp add: FLOAT_EPS_def)
  then have "quat2mat (w, x, y, z) =
     ((1 - (y * (y * 2) + z * (z * 2)), x * (y * 2) - w * (z * 2), x * (z * 2) + w * (y * 2)),
      (x * (y * 2) + w * (z * 2), 1 - (x * (x * 2) + z * (z * 2)), y * (z * 2) - w * (x * 2)),
      (x * (z * 2) - w * (y * 2), y * (z * 2) + w * (x * 2), 1 - (x * (x * 2) + y * (y * 2))))"
    by (simp add: N Let_def)
  also have "\<dots> = ((1 - 2 * (y * y + z * z), 2 * (x * y - w * z), 2 * (x * z + w * y)),
      (2 * (x * y + w * z), 1 - 2 * (x * x + z * z), 2 * (y * z - w * x)),
      (2 * (x * z - w * y), 2 * (y * z + w * x), 1 - 2 * (x * x + y * y)))"
    by (simp add: algebra_simps)
  finally show ?thesis .
qed

lemma rigid_inverse:
  assumes "orthonormal (q2m q)"
  shows "matmul (make_T q2m t q) (inv_T (make_T q2m t q)) = eye4"
    and "matmul (inv_T (make_T q2m t q)) (make_T q2m t q) = eye4"
proof -
  obtain a b c d e f g h i where R: "q2m q = ((a, b, c), (d, e, f), (g, h, i))"
    by (metis prod_cases3)
  obtain t0 t1 t2 where t: "t = (t0, t1, t2)" by (metis prod_cases3)
  from assms have rows: "a*a + b*b + c*c = 1" "a*d + b*e + c*f = 0" "a*g + b*h + c*i = 0"
     "d*a + e*b + f*c = 0" "d*d + e*e + f*f = 1" "d*g + e*h + f*i = 0"
     "g*a + h*b + i*c = 0" "g*d + h*e + i*f = 0" "g*g + h*h + i*i = 1"
    by (simp_all add: orthonormal_def R eye3_def)
  from assms have cols: "a*a + d*d + g*g = 1" "a*b + d*e + g*h = 0" "a*c + d*f + g*i = 0"
     "b*a + e*d + h*g = 0" "b*b + e*e + h*h = 1" "b*c + e*f + h*i = 0"
     "c*a + f*d + i*g = 0" "c*b + f*e + i*h = 0" "c*c + f*f + i*i = 1"
    by (simp_all add: orthonormal_def R eye3_def)
  have T: "make_T q2m t q = ((a, b, c, t0), (d, e, f, t1), (g, h, i, t2), (0, 0, 0, 1))"
    by (simp add: make_T_def quat_wxyz_to_R_def R t eye4_def)
  have Ti: "inv_T ((a, b, c, t0), (d, e, f, t1), (g, h, i, t2), (0, 0, 0, 1)) =
      ((a, d, g, - (a * t0) - d * t1 - g * t2),
       (b, e, h, - (b * t0) - e * t1 - h * t2),
       (c, f, i, - (c * t0) - f * t1 - i * t2), (0, 0, 0, 1))"
    by (simp add: inv_T_def eye4_def Let_def)
  have "a * (- (a * t0) - d * t1 - g * t2) + b * (- (b * t0) - e * t1 - h * t2)
          + c * (- (c * t0) - f * t1 - i * t2) + t0
        = t0 * (1 - (a*a + b*b + c*c)) - t1 * (a*d + b*e + c*f) - t2 * (a*g + b*h + c*i)"
    by (simp add: algebra_simps)
  then have c0: "a * (- (a * t0) - d * t1 - g * t2) + b * (- (b * t0) - e * t1 - h * t2)
          + c * (- (c * t0) - f * t1 - i * t2) + t0 = 0"
    by (simp only: rows) simp
  have "d * (- (a * t0) - d * t1 - g * t2) + e * (- (b * t0) - e * t1 - h * t2)
          + f * (- (c * t0) - f * t1 - i * t2) + t1
        = t1 * (1 - (d*d + e*e + f*f)) - t0 * (d*a + e*b + f*c) - t2 * (d*g + e*h + f*i)"
    by (simp add: algebra_simps)
  then have c1: "d * (- (a * t0) - d * t1 - g * t2) + e * (- (b * t0) - e * t1 - h * t2)
          + f * (- (c * t0) - f * t1 - i * t2) + t1 = 0"
    by (simp only: rows) simp
  have "g * (- (a * t0) - d * t1 - g * t2) + h * (- (b * t0) - e * t1 - h * t2)
          + i * (- (c * t0) - f * t1 - i * t2) + t2
        = t2 * (1 - (g*g + h*h + i*i)) - t0 * (g*a + h*b + i*c) - t1 * (g*d + h*e + i*f)"
    by (simp add: algebra_simps)
  then have c2: "g * (- (a * t0) - d * t1 - g * t2) + h * (- (b * t0) - e * t1 - h * t2)
          + i * (- (c * t0) - f * t1 - i * t2) + t2 = 0"
    by (simp only: rows) simp
  show "matmul (make_T q2m t q) (inv_T (make_T q2m t q)) = eye4"
    unfolding T Ti by (simp add: eye4_def Let_def rows c0 c1 c2)
  show "matmul (inv_T (make_T q2m t q)) (make_T q2m t q) = eye4"
    unfolding T Ti by (simp add: eye4_def Let_def cols)
qed

lemma quat2mat_orthonormal:
  assumes "quat_norm_sq q = 1"
  shows "orthonormal (quat2mat q)"
proof -
  obtain w x y z where q: "q = (w, x, y, z)" by (metis prod_cases4)
  have N: "w * w + x * x + y * y + z * z = 1" using assms by (simp add: quat_norm_sq_def q)
  have u: "quat_norm_sq (w, x, y, z) = 1" using assms q by simp
  have r1: "matmul3 (quat2mat q) (transpose3 (quat2mat q)) = eye3"
    unfolding q quat2mat_unit [OF u] eye3_def
    apply simp
    using N apply (intro conjI)
            apply algebra+
    done
  have r2: "matmul3 (transpose3 (quat2mat q)) (quat2mat q) = eye3"
    unfolding q quat2mat_unit [OF u] eye3_def
    apply simp
    using N apply (intro conjI)
            apply algebra+
    done
  show ?thesis using r1 r2 by (simp add: orthonormal_def)
qed


text \<open>
  C7. For every translation vector and every unit-norm rotation quaternion, the 4x4
  transform built by \<open>make_T\<close> and its rigid-body inverse \<open>inv_T\<close> (transposed rotation
  block, negated rotated translation) multiply to the identity, in either order. The
  arithmetic is that of the reals.
\<close>

theorem make_T_inv_T_identity:
  assumes "quat_norm_sq q = 1"
  shows "matmul (make_T quat2mat t q) (inv_T (make_T quat2mat t q)) = eye4 \<and>
         matmul (inv_T (make_T quat2mat t q)) (make_T quat2mat t q) = eye4"
  using rigid_inverse [of quat2mat q t] quat2mat_orthonormal [OF assms] by simp

theorem make_T_inv_T_identity_witness:
  "quat_norm_sq (0, 0, 0, 1) = 1 \<and>
   matmul (make_T quat2mat (1, 2, 3) (0, 0, 0, 1)) (inv_T (make_T quat2mat (1, 2, 3) (0, 0, 0, 1))) = eye4 \<and>
   matmul (inv_T (make_T quat2mat (1, 2, 3) (0, 0, 0, 1))) (make_T quat2mat (1, 2, 3) (0, 0, 0, 1)) = eye4"
proof -
  have h: "quat_norm_sq (0, 0, 0, 1) = 1" by (simp add: quat_norm_sq_def)
  show ?thesis using h make_T_inv_T_identity [OF h, of "(1, 2, 3)"] by simp
qed

section \<open>Properties of the sample cursor\<close>

lemma samples_bounds_check [simp]: "samples (bounds_check v) = samples v"
  by (simp add: bounds_check_def Let_def)

lemma idx_bounds_check:
  "samples v \<noteq> [] \<Longrightarrow> idx (bounds_check v) = min (int (length (samples v)) - 1) (max 0 (idx v))"
  by (cases "samples v") (auto simp: bounds_check_def Let_def)

lemma py_index_in_range:
  "0 \<le> i \<Longrightarrow> i < int (length xs) \<Longrightarrow> py_index xs i = Inr (xs ! nat i)"
  by (simp add: py_index_def)

lemma nav_step:
  assumes "samples v \<noteq> []"
  shows "update_renderer frame_of (v\<lparr>idx := j\<rparr>) = (v', r) \<Longrightarrow>
     idx v' = min (int (length (samples v)) - 1) (max 0 j) \<and> samples v' = samples v \<and>
     r = frame_of (samples v ! nat (idx v'))"
  using assms
  apply (cases "samples v")
   apply simp
  apply (auto simp: update_renderer_def load_frame_data_def Let_def idx_bounds_check py_index_def
      split: sum.splits prod.splits if_splits)
  done

text \<open>
  C9. On a key-down navigation event over a non-empty sample table, the cursor after the
  step is the stepped cursor clamped to \<open>[0, count - 1]\<close>: a forward step at the last
  sample and a backward step at the first one stay at the boundary, and the sample that is
  read is the one at the clamped cursor (no index error, no wrap-around).
\<close>

theorem cursor_clamped:
  assumes "samples v \<noteq> []" and "action = None \<or> action = Some 1"
  shows "(case on_right frame_of action v of (v', r) \<Rightarrow>
            0 \<le> idx v' \<and> idx v' \<le> int (length (samples v)) - 1 \<and>
            idx v' = min (int (length (samples v)) - 1) (max 0 (idx v + 1)) \<and>
            r = Some (frame_of (samples v ! nat (idx v')))) \<and>
         (case on_left frame_of action v of (v', r) \<Rightarrow>
            0 \<le> idx v' \<and> idx v' \<le> int (length (samples v)) - 1 \<and>
            idx v' = min (int (length (samples v)) - 1) (max 0 (idx v - 1)) \<and>
            r = Some (frame_of (samples v ! nat (idx v'))))"
proof -
  have n: "0 < int (length (samples v))" using assms(1) by simp
  obtain v1 r1 where u1: "update_renderer frame_of (v\<lparr>idx := idx v + 1\<rparr>) = (v1, r1)"
    by (cases "update_renderer frame_of (v\<lparr>idx := idx v + 1\<rparr>)")
  obtain v2 r2 where u2: "update_renderer frame_of (v\<lparr>idx := idx v - 1\<rparr>) = (v2, r2)"
    by (cases "update_renderer frame_of (v\<lparr>idx := idx v - 1\<rparr>)")
  note s1 = nav_step [OF assms(1) u1] and s2 = nav_step [OF assms(1) u2]
  have a: "\<not> (action \<noteq> None \<and> action \<noteq> Some 1)" using assms(2) by auto
  show ?thesis
    using n s1 s2 a by (auto simp: on_right_def on_left_def u1 u2)
qed


theorem cursor_clamped_witness:
  "samples \<lparr>samples = [10, 20, 30 :: nat], idx = 2, first_render = False\<rparr> \<noteq> [] \<and>
   on_right Inr None \<lparr>samples = [10, 20, 30 :: nat], idx = 2, first_render = False\<rparr> =
     (\<lparr>samples = [10, 20, 30], idx = 2, first_render = False\<rparr>, Some (Inr 30)) \<and>
   on_left Inr None \<lparr>samples = [10, 20, 30 :: nat], idx = 0, first_render = False\<rparr> =
     (\<lparr>samples = [10, 20, 30], idx = 0, first_render = False\<rparr>, Some (Inr 10))"
  using cursor_clamped [of "\<lparr>samples = [10, 20, 30 :: nat], idx = 2, first_render = False\<rparr>" None Inr]
    cursor_clamped [of "\<lparr>samples = [10, 20, 30 :: nat], idx = 0, first_render = False\<rparr>" None Inr]
  by (simp add: on_right_def on_left_def update_renderer_def load_frame_data_def
      bounds_check_def py_index_def Let_def)

section \<open>Properties of the Path-Namespace Rewriter\<close>

lemma split_slash_no_slash: "slash \<notin> set w \<Longrightarrow> split_slash w = [w]"
  by (induction w) auto

lemma path_root_relative: "\<not> prefix [slash] s \<Longrightarrow> path_root s = []"
  by (cases s) (auto simp: path_root_def)

lemma record_name_parts:
  assumes "prefix ''record_'' r" and "slash \<notin> set r"
  shows "path_parts r = [r]" and "path_root r = []"
proof -
  from assms(1) obtain t where r: "r = ''record_'' @ t" by (auto simp: prefix_def)
  then have "r \<noteq> []" "r \<noteq> ''.''" by auto
  then show "path_parts r = [r]"
    using assms(2) by (simp add: path_parts_def split_slash_no_slash)
  have "\<not> prefix [slash] r" using r by (simp add: slash_def)
  then show "path_root r = []" by (rule path_root_relative)
qed

lemma rewrite_relative:
  assumes "prefix ''record_'' r" and "slash \<notin> set r" and "\<not> prefix [slash] lp"
  shows "rewrite_lidar_path r lp =
           ''carla/nusc_like_multi/'' @ r @
             (if path_parts lp = [] then [] else [slash] @ join_slash (path_parts lp))"
proof -
  have a: "path_root ''nusc_like_multi'' = []" "path_parts ''nusc_like_multi'' = [''nusc_like_multi'']"
    "path_root ''carla'' = []" "path_parts ''carla'' = [''carla'']"
    by (simp_all add: path_root_def path_parts_def slash_def)
  show ?thesis
    using record_name_parts [OF assms(1,2)] path_root_relative [OF assms(3)]
    by (cases "path_parts lp")
       (simp_all add: rewrite_lidar_path_def path_div_def Path_def a path_str_def slash_def)
qed

lemma name_before_slash:
  assumes "slash \<notin> set r" and "t = [] \<or> hd t = slash"
  shows "takeWhile (\<lambda>c. c \<noteq> slash) (r @ t) = r"
  using assms by (cases t) (auto simp: takeWhile_append2 takeWhile_tail)

lemma rewrite_inj_relative:
  assumes "prefix ''record_'' r1" "slash \<notin> set r1" "prefix ''record_'' r2" "slash \<notin> set r2"
    and "\<not> prefix [slash] lp" and "rewrite_lidar_path r1 lp = rewrite_lidar_path r2 lp"
  shows "r1 = r2"
proof -
  let ?t = "if path_parts lp = [] then [] else [slash] @ join_slash (path_parts lp)"
  have "r1 @ ?t = r2 @ ?t"
    using assms(6) unfolding rewrite_relative [OF assms(1,2,5)] rewrite_relative [OF assms(3,4,5)]
    by simp
  moreover have "takeWhile (\<lambda>c. c \<noteq> slash) (r1 @ ?t) = r1"
    by (rule name_before_slash [OF assms(2)]) simp
  moreover have "takeWhile (\<lambda>c. c \<noteq> slash) (r2 @ ?t) = r2"
    by (rule name_before_slash [OF assms(4)]) simp
  ultimately show ?thesis by simp
qed

lemma norm_rel_path_no_backslash: "backslash \<notin> set (norm_rel_path s)"
proof -
  have "backslash \<notin> set (map (\<lambda>c. if c = backslash then slash else c) s)"
    by (auto simp: backslash_def slash_def)
  then show ?thesis
    unfolding norm_rel_path_def using set_dropWhileD by fastforce
qed

lemma norm_rel_path_relative: "\<not> prefix [slash] (norm_rel_path s)"
proof -
  have "\<not> prefix [slash] (dropWhile (\<lambda>c. c = slash) xs)" for xs
    by (induction xs) auto
  then show ?thesis by (simp add: norm_rel_path_def)
qed

lemma norm_rel_path_decompose:
  "map (\<lambda>c. if c = backslash then slash else c) s =
     replicate (length (takeWhile (\<lambda>c. c = slash) (map (\<lambda>c. if c = backslash then slash else c) s))) slash
       @ norm_rel_path s"
proof -
  have "xs = replicate (length (takeWhile (\<lambda>c. c = slash) xs)) slash @ dropWhile (\<lambda>c. c = slash) xs"
    for xs :: string
    by (induction xs) auto
  then show ?thesis unfolding norm_rel_path_def by blast
qed

lemma rewrite_absolute:
  assumes "prefix [slash] lp"
  shows "rewrite_lidar_path r lp = path_str (Path lp)"
proof -
  have "path_root lp \<noteq> []" using assms by (auto simp: path_root_def)
  then show ?thesis by (simp add: rewrite_lidar_path_def path_div_def)
qed

lemma split_slash_chars:
  "c \<noteq> slash \<Longrightarrow> c \<in> set s \<Longrightarrow> \<exists>w \<in> set (split_slash s). c \<in> set w"
proof (induction s)
  case Nil
  then show ?case by simp
next
  case (Cons a s)
  show ?case
  proof (cases "a = slash")
    case True
    then show ?thesis using Cons by auto
  next
    case False
    obtain w ws where sp: "split_slash s = w # ws"
      by (cases "split_slash s") (cases s, auto split: if_splits list.splits)
    show ?thesis
    proof (cases "c = a")
      case True
      then show ?thesis using False sp by simp
    next
      case False
      then have "c \<in> set s" using Cons.prems by simp
      from Cons.IH [OF Cons.prems(1) this] show ?thesis
        using \<open>a \<noteq> slash\<close> sp by auto
    qed
  qed
qed

lemma join_slash_chars:
  "w \<in> set ws \<Longrightarrow> c \<in> set w \<Longrightarrow> c \<in> set (join_slash ws)"
  by (induction ws rule: join_slash.induct) auto

lemma path_parts_backslash:
  assumes "backslash \<in> set lp"
  shows "\<exists>w \<in> set (path_parts lp). backslash \<in> set w"
proof -
  have "backslash \<noteq> slash" by (simp add: backslash_def slash_def)
  from split_slash_chars [OF this assms] obtain w where
    w: "w \<in> set (split_slash lp)" "backslash \<in> set w" by blast
  then have "w \<noteq> []" "w \<noteq> ''.''" by (auto simp: backslash_def)
  then show ?thesis using w by (auto simp: path_parts_def)
qed

lemma rewrite_keeps_backslash:
  assumes "backslash \<in> set lp"
  shows "backslash \<in> set (rewrite_lidar_path r lp)"
proof -
  from path_parts_backslash [OF assms] obtain w where
    w: "w \<in> set (path_parts lp)" "backslash \<in> set w" by blast
  let ?p = "path_div (path_div (path_div (Path ''carla'') ''nusc_like_multi'') r) lp"
  have "w \<in> set (snd ?p)" using w(1) by (simp add: path_div_def Path_def)
  then have "backslash \<in> set (join_slash (snd ?p))" and "snd ?p \<noteq> []"
    using w(2) join_slash_chars by auto
  then show ?thesis by (simp add: rewrite_lidar_path_def path_str_def)
qed

text \<open>
  C5 (as amended). \<open>norm_rel_path\<close> (the corrector's helper) is its argument with every
  backslash turned into \<open>/\<close> and the whole run of leading slashes removed: the result
  has no backslash and no leading slash. The aggregator's rewriter does not call it. For a
  record-local path without a leading slash it gives \<open>carla/nusc_like_multi/\<close>, the
  record's name and the path's components joined by \<open>/\<close>, so that two distinct record
  names give different rewritten paths, in particular for every result of
  \<open>norm_rel_path\<close>. A path with a leading slash replaces the prefix: the rewritten path
  is that path alone, the same for every record. A backslash in the path is kept.
\<close>

theorem path_rewriter_injective:
  assumes "prefix ''record_'' r1" "slash \<notin> set r1" "prefix ''record_'' r2" "slash \<notin> set r2"
    and "r1 \<noteq> r2"
  shows "map (\<lambda>c. if c = backslash then slash else c) s =
           replicate (length (takeWhile (\<lambda>c. c = slash)
                                (map (\<lambda>c. if c = backslash then slash else c) s))) slash
             @ norm_rel_path s \<and>
         backslash \<notin> set (norm_rel_path s) \<and> \<not> prefix [slash] (norm_rel_path s) \<and>
         rewrite_lidar_path r1 (norm_rel_path s) \<noteq> rewrite_lidar_path r2 (norm_rel_path s) \<and>
         (\<not> prefix [slash] lp \<longrightarrow>
            rewrite_lidar_path r1 lp =
              ''carla/nusc_like_multi/'' @ r1 @
                (if path_parts lp = [] then [] else [slash] @ join_slash (path_parts lp)) \<and>
            rewrite_lidar_path r1 lp \<noteq> rewrite_lidar_path r2 lp) \<and>
         (prefix [slash] lp \<longrightarrow>
            rewrite_lidar_path r1 lp = path_str (Path lp) \<and>
            rewrite_lidar_path r1 lp = rewrite_lidar_path r2 lp) \<and>
         (backslash \<in> set lp \<longrightarrow> backslash \<in> set (rewrite_lidar_path r1 lp))"
proof -
  have inj: "rewrite_lidar_path r1 p \<noteq> rewrite_lidar_path r2 p" if "\<not> prefix [slash] p" for p
    using rewrite_inj_relative [OF assms(1-4) that] assms(5) by auto
  have rel: "\<not> prefix [slash] lp \<longrightarrow>
            rewrite_lidar_path r1 lp =
              ''carla/nusc_like_multi/'' @ r1 @
                (if path_parts lp = [] then [] else [slash] @ join_slash (path_parts lp)) \<and>
            rewrite_lidar_path r1 lp \<noteq> rewrite_lidar_path r2 lp"
    using rewrite_relative [OF assms(1,2)] inj by blast
  have ab: "prefix [slash] lp \<longrightarrow>
            rewrite_lidar_path r1 lp = path_str (Path lp) \<and>
            rewrite_lidar_path r1 lp = rewrite_lidar_path r2 lp"
    by (simp add: rewrite_absolute)
  have bs: "backslash \<in> set lp \<longrightarrow> backslash \<in> set (rewrite_lidar_path r1 lp)"
    by (simp add: rewrite_keeps_backslash)
  show ?thesis
    using norm_rel_path_decompose [of s] norm_rel_path_no_backslash [of s]
      norm_rel_path_relative [of s] inj [OF norm_rel_path_relative] rel ab bs
    by blast
qed

theorem path_rewriter_injective_witness:
  "prefix ''record_'' ''record_0001'' \<and> slash \<notin> set ''record_0001'' \<and>
   prefix ''record_'' ''record_0002'' \<and> slash \<notin> set ''record_0002'' \<and>
   ''record_0001'' \<noteq> ''record_0002'' \<and>
   norm_rel_path (''//sweeps'' @ [backslash] @ ''LIDAR_TOP'' @ [backslash] @ ''a.bin'') =
     ''sweeps/LIDAR_TOP/a.bin'' \<and>
   rewrite_lidar_path ''record_0001''
       (norm_rel_path (''//sweeps'' @ [backslash] @ ''LIDAR_TOP'' @ [backslash] @ ''a.bin'')) =
     ''carla/nusc_like_multi/record_0001/sweeps/LIDAR_TOP/a.bin'' \<and>
   rewrite_lidar_path ''record_0001''
       (norm_rel_path (''//sweeps'' @ [backslash] @ ''LIDAR_TOP'' @ [backslash] @ ''a.bin'')) \<noteq>
     rewrite_lidar_path ''record_0002''
       (norm_rel_path (''//sweeps'' @ [backslash] @ ''LIDAR_TOP'' @ [backslash] @ ''a.bin'')) \<and>
   rewrite_lidar_path ''record_0001'' ''samples/LIDAR_TOP/a.bin'' =
     ''carla/nusc_like_multi/record_0001/samples/LIDAR_TOP/a.bin'' \<and>
   rewrite_lidar_path ''record_0001'' ''samples/LIDAR_TOP/a.bin'' \<noteq>
     rewrite_lidar_path ''record_0002'' ''samples/LIDAR_TOP/a.bin''"
proof -
  let ?s = "''//sweeps'' @ [backslash] @ ''LIDAR_TOP'' @ [backslash] @ ''a.bin''"
  have h: "prefix ''record_'' ''record_0001''" "slash \<notin> set ''record_0001''"
    "prefix ''record_'' ''record_0002''" "slash \<notin> set ''record_0002''"
    "''record_0001'' \<noteq> ''record_0002''"
    by (simp_all add: slash_def)
  have n: "norm_rel_path ?s = ''sweeps/LIDAR_TOP/a.bin''"
    by (simp add: norm_rel_path_def slash_def backslash_def)
  have v1: "rewrite_lidar_path ''record_0001'' ''sweeps/LIDAR_TOP/a.bin'' =
     ''carla/nusc_like_multi/record_0001/sweeps/LIDAR_TOP/a.bin''"
    by (simp add: rewrite_lidar_path_def path_div_def Path_def path_root_def path_parts_def
        path_str_def slash_def)
  have v2: "rewrite_lidar_path ''record_0001'' ''samples/LIDAR_TOP/a.bin'' =
     ''carla/nusc_like_multi/record_0001/samples/LIDAR_TOP/a.bin''"
    by (simp add: rewrite_lidar_path_def path_div_def Path_def path_root_def path_parts_def
        path_str_def slash_def)
  have r: "\<not> prefix [slash] ''samples/LIDAR_TOP/a.bin''" by (simp add: slash_def)
  note t = path_rewriter_injective [OF h, of ?s "''samples/LIDAR_TOP/a.bin''"]
  have v1': "rewrite_lidar_path ''record_0001'' (norm_rel_path ?s) =
     ''carla/nusc_like_multi/record_0001/sweeps/LIDAR_TOP/a.bin''"
    unfolding n by (rule v1)
  have i1: "rewrite_lidar_path ''record_0001'' (norm_rel_path ?s) \<noteq>
     rewrite_lidar_path ''record_0002'' (norm_rel_path ?s)"
    using t by blast
  have i2: "rewrite_lidar_path ''record_0001'' ''samples/LIDAR_TOP/a.bin'' \<noteq>
     rewrite_lidar_path ''record_0002'' ''samples/LIDAR_TOP/a.bin''"
    using t r by blast
  show ?thesis by (intro conjI h n v1' i1 v2 i2)
qed

text \<open>
  The claim as stated fails on the aggregator's rewriter: a path with a leading root
  marker is not stripped but replaces the prefix, so two records get the same rewritten
  path; and a backslash is kept.
\<close>

theorem path_rewriter_counterexample:
  "''record_0001'' \<noteq> ''record_0002'' \<and>
   rewrite_lidar_path ''record_0001'' ''/x.bin'' = rewrite_lidar_path ''record_0002'' ''/x.bin'' \<and>
   rewrite_lidar_path ''record_0001'' ''/x.bin'' = ''/x.bin'' \<and>
   backslash \<in> set (rewrite_lidar_path ''record_0001'' (''a'' @ [backslash] @ ''x.bin''))"
  by (simp add: rewrite_lidar_path_def path_div_def Path_def path_root_def path_parts_def
      path_str_def slash_def backslash_def)

section \<open>Properties of the Info Aggregator\<close>

lemma sort_names_perm:
  assumes "mset l1 = mset l2"
  shows "record_names l1 = record_names l2"
proof -
  let ?f = "\<lambda>l. map fst (filter (\<lambda>(name, is_dir). is_dir \<and> prefix ''record_'' name) l)"
  have "mset (?f l1) = mset (?f l2)"
    using assms by simp
  then have "mset (?f l2) = mset (?f l1)" by simp
  then have "sort (?f l1) = sort (?f l2)"
    by (intro properties_for_sort) simp_all
  then show ?thesis by (simp add: record_names_def)
qed

lemma set_record_names:
  "set (record_names l) = {name. (name, True) \<in> set l \<and> prefix ''record_'' name}"
proof -
  have "set (map fst (filter (\<lambda>(name, is_dir). is_dir \<and> prefix ''record_'' name) l)) =
        {name. (name, True) \<in> set l \<and> prefix ''record_'' name}"
    by (induction l) auto
  then show ?thesis by (simp add: record_names_def)
qed

text \<open>
  C6. The aggregator processes the record directories (the directories of the listing
  named \<open>record_*\<close>) in lexicographic order of their names, and its output does not
  depend on the order in which the directory listing arrives: two runs over the same set
  of entries give the same corpus, with the same order and the same rewritten paths.
\<close>

theorem aggregator_deterministic:
  "sorted (record_names l1) \<and>
   set (record_names l1) = {name. (name, True) \<in> set l1 \<and> prefix ''record_'' name} \<and>
   (mset l1 = mset l2 \<longrightarrow> create_infos_main build (Some l1) = create_infos_main build (Some l2))"
proof -
  have "sorted (record_names l1)" by (simp add: record_names_def)
  moreover have "create_infos_main build (Some l1) = create_infos_main build (Some l2)"
    if "mset l1 = mset l2"
    using sort_names_perm [OF that] by (simp add: create_infos_main_def)
  ultimately show ?thesis using set_record_names [of l1] by simp
qed


theorem aggregator_deterministic_witness:
  "mset [(''record_2'', True), (''notes'', True), (''record_1'', True)] =
     mset [(''record_1'', True), (''record_2'', True), (''notes'', True)] \<and>
   create_infos_main (\<lambda>r. Inr [\<lparr>lidar_path = ''a.bin'', payload = r\<rparr>])
       (Some [(''record_2'', True), (''notes'', True), (''record_1'', True)]) =
     Inr ([\<lparr>lidar_path = ''carla/nusc_like_multi/record_1/a.bin'', payload = ''record_1''\<rparr>,
           \<lparr>lidar_path = ''carla/nusc_like_multi/record_2/a.bin'', payload = ''record_2''\<rparr>],
          [(''record_1'', 1), (''record_2'', 1)]) \<and>
   create_infos_main (\<lambda>r. Inr [\<lparr>lidar_path = ''a.bin'', payload = r\<rparr>])
       (Some [(''record_1'', True), (''record_2'', True), (''notes'', True)]) =
   create_infos_main (\<lambda>r. Inr [\<lparr>lidar_path = ''a.bin'', payload = r\<rparr>])
       (Some [(''record_2'', True), (''notes'', True), (''record_1'', True)])"
proof -
  have m: "mset [(''record_2'', True), (''notes'', True), (''record_1'', True)] =
     mset [(''record_1'', True), (''record_2'', True), (''notes'', True)]"
    by simp
  have v: "create_infos_main (\<lambda>r. Inr [\<lparr>lidar_path = ''a.bin'', payload = r\<rparr>])
       (Some [(''record_2'', True), (''notes'', True), (''record_1'', True)]) =
     Inr ([\<lparr>lidar_path = ''carla/nusc_like_multi/record_1/a.bin'', payload = ''record_1''\<rparr>,
           \<lparr>lidar_path = ''carla/nusc_like_multi/record_2/a.bin'', payload = ''record_2''\<rparr>],
          [(''record_1'', 1), (''record_2'', 1)])"
    by (simp add: create_infos_main_def record_names_def rewrite_infos_def rewrite_lidar_path_def
        path_div_def Path_def path_root_def path_parts_def path_str_def slash_def)
  show ?thesis
    using m v aggregator_deterministic
      [of "[(''record_2'', True), (''notes'', True), (''record_1'', True)]"
          "[(''record_1'', True), (''record_2'', True), (''notes'', True)]"
          "\<lambda>r. Inr [\<lparr>lidar_path = ''a.bin'', payload = r\<rparr>]"]
    by simp
qed

section \<open>Properties of the Spatial Corrector: locating and shifting point files\<close>

lemmas eval_defs = record_dirs_def all_paths_def is_record_path_def
  dir_prefix_def path_join_def slash_def isdir_def process_record_def correct_record_def
  marker_path_def exists_def
  format_plus_3f_def round_half_even_def isfile_def load_json_def is_lidar_row_def get_filename_def
  lower_def lower_char_def resolve_bin_def norm_rel_path_def backslash_def Let_def skipped_def
  fromfile_def glob_basename_def basename_def shift_bin_inplace_def write_file_def

lemma resolve_bin_isfile:
  "resolve_bin fs croot rec raw = Inr p \<Longrightarrow> isfile fs p"
  by (auto simp: resolve_bin_def Let_def split: if_splits)

text \<open>
  C4 (as amended). A point-file reference is resolved by trying, in this order, the path
  under the record root, the path under the corpus root, and the basename search below
  the record. Resolution fails, with the error that carries the raw filename and the
  number of hits, exactly when neither candidate is a regular file and the basename
  search does not give exactly one hit that is a regular file.
\<close>

theorem resolve_bin_order:
  "(let fn = norm_rel_path raw;
        c1 = path_join rec fn; c2 = path_join croot fn;
        hits = glob_basename fs rec (basename fn)
    in (isfile fs c1 \<longrightarrow> resolve_bin fs croot rec raw = Inr c1) \<and>
       (\<not> isfile fs c1 \<and> isfile fs c2 \<longrightarrow> resolve_bin fs croot rec raw = Inr c2) \<and>
       (\<not> isfile fs c1 \<and> \<not> isfile fs c2 \<and> (\<exists>p. hits = [p] \<and> isfile fs p) \<longrightarrow>
          resolve_bin fs croot rec raw = Inr (hd hits)) \<and>
       ((\<exists>e. resolve_bin fs croot rec raw = Inl e) \<longleftrightarrow>
          \<not> isfile fs c1 \<and> \<not> isfile fs c2 \<and> \<not> (\<exists>p. hits = [p] \<and> isfile fs p)) \<and>
       (\<forall>e. resolve_bin fs croot rec raw = Inl e \<longrightarrow> e = FileNotFoundError raw (length hits)))"
  by (cases "glob_basename fs rec (basename (norm_rel_path raw))")
     (auto simp: resolve_bin_def Let_def length_Suc_conv)

theorem resolve_bin_order_witness:
  "resolve_bin ex_fs_glob ''/d'' ''/d/record_1'' ''lidar/a.bin'' = Inr ''/d/record_1/x/a.bin'' \<and>
   resolve_bin ex_fs_glob ''/d'' ''/d/record_1'' ''/x/a.bin'' = Inr ''/d/record_1/x/a.bin'' \<and>
   resolve_bin ex_fs_glob ''/d'' ''/d/record_1'' ''record_1/x/a.bin'' = Inr ''/d/record_1/x/a.bin'' \<and>
   resolve_bin ex_fs_glob ''/d'' ''/d/record_1'' ''lidar/b.bin'' = Inl (FileNotFoundError ''lidar/b.bin'' 0)"
  using resolve_bin_order [of "''lidar/a.bin''" "''/d/record_1''" "''/d''" ex_fs_glob]
    resolve_bin_order [of "''/x/a.bin''" "''/d/record_1''" "''/d''" ex_fs_glob]
    resolve_bin_order [of "''record_1/x/a.bin''" "''/d/record_1''" "''/d''" ex_fs_glob]
    resolve_bin_order [of "''lidar/b.bin''" "''/d/record_1''" "''/d''" ex_fs_glob]
  by (simp add: ex_fs_glob_def eval_defs)

text \<open>
  The claim as stated fails: neither candidate exists and the basename search has
  exactly one match, yet resolution fails, because the match is a directory.
\<close>

theorem resolve_bin_counterexample:
  "\<not> exists ex_fs_dir_hit (path_join ''/d/record_1'' (norm_rel_path ''lidar/a.bin'')) \<and>
   \<not> exists ex_fs_dir_hit (path_join ''/d'' (norm_rel_path ''lidar/a.bin'')) \<and>
   glob_basename ex_fs_dir_hit ''/d/record_1'' (basename (norm_rel_path ''lidar/a.bin'')) = [''/d/record_1/x/a.bin''] \<and>
   resolve_bin ex_fs_dir_hit ''/d'' ''/d/record_1'' ''lidar/a.bin'' = Inl (FileNotFoundError ''lidar/a.bin'' 1)"
  by (simp add: ex_fs_dir_hit_def eval_defs)

lemma shift_bin_malformed:
  assumes "fromfile fs p = Inr arr" and "0 < d" and "length arr mod d \<noteq> 0"
  shows "shift_bin_inplace fs p d dz = (fs, Inl (ValueError_BadBinShape p (length arr) d))"
  using assms by (simp add: shift_bin_inplace_def)

lemma shift_lidar_append:
  "shift_lidar_entries a rec fs cnt (pre @ post) =
     (case shift_lidar_entries a rec fs cnt pre of
        (fs1, Inl e) \<Rightarrow> (fs1, Inl e)
      | (fs1, Inr cnt1) \<Rightarrow> shift_lidar_entries a rec fs1 cnt1 post)"
proof (induction a rec fs cnt pre rule: shift_lidar_entries.induct)
  case (1 a rec fs rec_bins rec_points)
  then show ?case by simp
next
  case (2 a rec fs rec_bins rec_points sd sds)
  then show ?case
    by (auto split: sum.splits prod.splits)
qed


lemma is_lidar_row_filename: "is_lidar_row sd \<Longrightarrow> get_filename sd \<noteq> []"
  by (auto simp: is_lidar_row_def lower_def Let_def suffix_def)

lemma process_record_lidar_error:
  assumes "\<not> skipped a fs rec"
    and "load_json fs (path_join (path_join rec (version_dir a)) ''sample_data.json'') = Inr sample_data"
    and "load_json fs (path_join (path_join rec (version_dir a)) ''sample_annotation.json'') = Inr sample_ann"
    and "shift_lidar_entries a rec fs (0, 0) (filter is_lidar_row sample_data) = (fs1, Inl e)"
  shows "process_record f a fs rec =
           (fs1, [if filter is_lidar_row sample_data = [] then Warn_no_lidar_entries rec
                  else Rec_shifting rec (length (filter is_lidar_row sample_data))], Inl e)"
  using assms by (simp add: process_record_def correct_record_def skipped_def Let_def)

text \<open>
  C3. In a run that is not a dry run, when the loop over a record's lidar rows reaches a
  row whose point file has an element count that the point width does not divide, the
  shift raises the shape error (the spec's MalformedPointFileError) and leaves the file
  system as it was before that operation; the record's loop, the record and the loop over
  the records all end with that error: no later row or record is processed, and neither
  the annotation table nor the marker of the record is written.
\<close>

theorem malformed_point_file_aborts:
  assumes "\<not> dry_run a" and "0 < point_dim a" and "\<not> skipped a fs rec"
    and "load_json fs (path_join (path_join rec (version_dir a)) ''sample_data.json'') = Inr sample_data"
    and "load_json fs (path_join (path_join rec (version_dir a)) ''sample_annotation.json'') = Inr sample_ann"
    and "filter is_lidar_row sample_data = pre @ sd # post"
    and "shift_lidar_entries a rec fs (0, 0) pre = (fs1, Inr cnt1)"
    and "resolve_bin fs1 (carla_root a) rec (get_filename sd) = Inr p"
    and "fromfile fs1 p = Inr arr" and "length arr mod point_dim a \<noteq> 0"
  shows "shift_bin_inplace fs1 p (point_dim a) (delta_z a) =
           (fs1, Inl (ValueError_BadBinShape p (length arr) (point_dim a))) \<and>
         process_record f a fs rec =
           (fs1, [Rec_shifting rec (length (pre @ sd # post))],
            Inl (ValueError_BadBinShape p (length arr) (point_dim a))) \<and>
         main_loop f a fs out tot (rec # recs) =
           (fs1, out @ [Rec_shifting rec (length (pre @ sd # post))],
            Inl (ValueError_BadBinShape p (length arr) (point_dim a)))"
proof -
  let ?E = "ValueError_BadBinShape p (length arr) (point_dim a)"
  have sb: "shift_bin_inplace fs1 p (point_dim a) (delta_z a) = (fs1, Inl ?E)"
    using assms(9,2,10) by (rule shift_bin_malformed)
  have "sd \<in> set (filter is_lidar_row sample_data)" using assms(6) by simp
  then have fnne: "get_filename sd \<noteq> []" by (simp add: is_lidar_row_filename)
  obtain b q where cnt1: "cnt1 = (b, q)" by (cases cnt1)
  have "shift_lidar_entries a rec fs1 (b, q) (sd # post) = (fs1, Inl ?E)"
    using fnne assms(8,1) sb by simp
  then have loop: "shift_lidar_entries a rec fs (0, 0) (filter is_lidar_row sample_data) = (fs1, Inl ?E)"
    using assms(7) unfolding assms(6) shift_lidar_append cnt1 by simp
  have pr: "process_record f a fs rec = (fs1, [Rec_shifting rec (length (pre @ sd # post))], Inl ?E)"
    using process_record_lidar_error [OF assms(3,4,5) loop, of f] unfolding assms(6) by simp
  obtain tb tp ta where tot: "tot = (tb, tp, ta)" by (cases tot)
  have "main_loop f a fs out tot (rec # recs) =
          (fs1, out @ [Rec_shifting rec (length (pre @ sd # post))], Inl ?E)"
    unfolding tot by (simp add: pr)
  with sb pr show ?thesis by simp
qed

theorem malformed_point_file_aborts_witness:
  "\<not> dry_run (ex_args\<lparr>point_dim := 5\<rparr>) \<and> 0 < point_dim (ex_args\<lparr>point_dim := 5\<rparr>) \<and>
   fromfile ex_fs ''/d/record_1/samples/LIDAR_TOP/a.bin'' = Inr [1, 2, 3, 4, 5, 6, 7, 8] \<and>
   length [1, 2, 3, 4, 5, 6, 7, 8 :: real] mod 5 \<noteq> 0 \<and>
   main_loop (\<lambda>s. None) (ex_args\<lparr>point_dim := 5\<rparr>) ex_fs [] (0, 0, 0) [''/d/record_1''] =
     (ex_fs, [Rec_shifting ''/d/record_1'' 1],
      Inl (ValueError_BadBinShape ''/d/record_1/samples/LIDAR_TOP/a.bin'' 8 5))"
proof -
  let ?a = "ex_args\<lparr>point_dim := 5\<rparr>"
  have h1: "\<not> dry_run ?a" and h2: "0 < point_dim ?a" by (simp_all add: ex_args_def)
  have h3: "\<not> skipped ?a ex_fs ''/d/record_1''" by (simp add: ex_args_def ex_fs_def eval_defs)
  have h4: "load_json ex_fs (path_join (path_join ''/d/record_1'' (version_dir ?a)) ''sample_data.json'')
      = Inr [[(''filename'', JStr ''samples/LIDAR_TOP/a.bin'')]]"
    by (simp add: ex_args_def ex_fs_def eval_defs)
  have h5: "load_json ex_fs (path_join (path_join ''/d/record_1'' (version_dir ?a)) ''sample_annotation.json'')
      = Inr [[(''translation'', JArr [JNum 1, JNum 2, JNum 1])]]"
    by (simp add: ex_args_def ex_fs_def eval_defs)
  have h6: "filter is_lidar_row [[(''filename'', JStr ''samples/LIDAR_TOP/a.bin'')]] =
      [] @ [(''filename'', JStr ''samples/LIDAR_TOP/a.bin'')] # []"
    by (simp add: eval_defs)
  have h7: "shift_lidar_entries ?a ''/d/record_1'' ex_fs (0, 0) [] = (ex_fs, Inr (0, 0))" by simp
  have h8: "resolve_bin ex_fs (carla_root ?a) ''/d/record_1''
      (get_filename [(''filename'', JStr ''samples/LIDAR_TOP/a.bin'')]) =
      Inr ''/d/record_1/samples/LIDAR_TOP/a.bin''"
    by (simp add: ex_args_def ex_fs_def eval_defs)
  have h9: "fromfile ex_fs ''/d/record_1/samples/LIDAR_TOP/a.bin'' = Inr [1, 2, 3, 4, 5, 6, 7, 8]"
    by (simp add: ex_fs_def fromfile_def)
  have h10: "length [1, 2, 3, 4, 5, 6, 7, 8 :: real] mod point_dim ?a \<noteq> 0" by (simp add: ex_args_def)
  show ?thesis
    using h1 h2 h9 h10
      malformed_point_file_aborts [OF h1 h2 h3 h4 h5 h6 h7 h8 h9 h10, of "\<lambda>s. None" "[]" "(0, 0, 0)" "[]"]
    by (simp add: ex_args_def)
qed


section \<open>Properties of the Spatial Corrector: counts and the dry run\<close>

lemma lidar_loop_counts:
  "shift_lidar_entries a rec fs (b, p) sds = (fs', Inr (b', p')) \<Longrightarrow>
     b' = b + length (filter (\<lambda>sd. get_filename sd \<noteq> []) sds)"
proof (induction a rec fs "(b, p)" sds arbitrary: b p rule: shift_lidar_entries.induct)
  case (1 a rec fs rec_bins rec_points)
  then show ?case by simp
next
  case (2 a rec fs rec_bins rec_points sd sds)
  then show ?case
    by (auto split: if_splits sum.splits prod.splits)
qed

lemma lidar_loop_dry:
  "dry_run a \<Longrightarrow> shift_lidar_entries a rec fs (b, p) sds = (fs', r) \<Longrightarrow>
     fs' = fs \<and> (\<forall>b' p'. r = Inr (b', p') \<longrightarrow> p' = p)"
proof (induction a rec fs "(b, p)" sds arbitrary: b p rule: shift_lidar_entries.induct)
  case (1 a rec fs rec_bins rec_points)
  then show ?case by auto
next
  case (2 a rec fs rec_bins rec_points sd sds)
  then show ?case
    by (auto split: if_splits sum.splits prod.splits)
qed

lemma shift_ann_counted:
  "shift_ann f dry dz ann = Inr (ann', c) \<Longrightarrow> c = has_translation3 ann"
  by (auto simp: has_translation3_def split: option.splits json.splits list.splits if_splits sum.splits)

lemma shift_ann_dry: "shift_ann f True dz ann = Inr (ann, has_translation3 ann)"
  by (auto simp: has_translation3_def split: option.splits json.splits list.splits)

lemma shift_annotations_count:
  "shift_annotations f dry dz anns = Inr (anns', n) \<Longrightarrow> n = length (filter has_translation3 anns)"
proof (induction anns arbitrary: anns' n)
  case Nil
  then show ?case by simp
next
  case (Cons ann anns)
  then show ?case
    by (auto split: sum.splits prod.splits dest: shift_ann_counted simp del: shift_ann.simps)
qed

lemma shift_annotations_dry:
  "shift_annotations f True dz anns = Inr (anns, length (filter has_translation3 anns))"
  by (induction anns) (simp_all add: shift_ann_dry del: shift_ann.simps)

lemma filter_lidar_nonempty:
  "filter (\<lambda>sd. get_filename sd \<noteq> []) (filter is_lidar_row sds) = filter is_lidar_row sds"
  by (induction sds) (auto simp: is_lidar_row_def lower_def Let_def suffix_def)

lemma process_record_skipped:
  "skipped a fs rec \<Longrightarrow> \<exists>m. process_record f a fs rec = (fs, [m], Inr None)"
  by (auto simp: process_record_def skipped_def Let_def)

lemma process_record_unskipped:
  "\<not> skipped a fs rec \<Longrightarrow>
   process_record f a fs rec =
     (case load_json fs (path_join (path_join rec (version_dir a)) ''sample_data.json'') of
        Inl e \<Rightarrow> (fs, [], Inl e)
      | Inr sd \<Rightarrow>
          (case load_json fs (path_join (path_join rec (version_dir a)) ''sample_annotation.json'') of
             Inl e \<Rightarrow> (fs, [], Inl e)
           | Inr sa \<Rightarrow>
               correct_record f a fs rec (marker_path rec (delta_z a))
                 (path_join (path_join rec (version_dir a)) ''sample_annotation.json'') sd sa))"
  by (auto simp: process_record_def skipped_def Let_def)

lemma correct_record_dry:
  assumes "dry_run a"
  shows "correct_record f a fs rec marker sap sd sa =
     (case shift_lidar_entries a rec fs (0, 0) (filter is_lidar_row sd) of
        (fs1, Inl e) \<Rightarrow>
          (fs, [if filter is_lidar_row sd = [] then Warn_no_lidar_entries rec
                else Rec_shifting rec (length (filter is_lidar_row sd))], Inl e)
      | (fs1, Inr (b, p)) \<Rightarrow>
          (fs, [if filter is_lidar_row sd = [] then Warn_no_lidar_entries rec
                else Rec_shifting rec (length (filter is_lidar_row sd)),
                Dry_would_shift (length (filter is_lidar_row sd)) (length (filter has_translation3 sa))],
           Inr (Some (length (filter is_lidar_row sd), 0, length (filter has_translation3 sa)))))"
proof -
  obtain fs1 r where l: "shift_lidar_entries a rec fs (0, 0) (filter is_lidar_row sd) = (fs1, r)"
    by (cases "shift_lidar_entries a rec fs (0, 0) (filter is_lidar_row sd)")
  have fs1: "fs1 = fs" using lidar_loop_dry [OF assms l] by simp
  show ?thesis
  proof (cases r)
    case (Inl e)
    then show ?thesis using l fs1 by (simp add: correct_record_def Let_def)
  next
    case (Inr c)
    obtain b p where c: "c = (b, p)" by (cases c)
    have "b = 0 + length (filter (\<lambda>sd. get_filename sd \<noteq> []) (filter is_lidar_row sd))"
      using lidar_loop_counts l Inr c by blast
    then have b: "b = length (filter is_lidar_row sd)"
      by (simp only: filter_lidar_nonempty add_0)
    have p: "p = 0" using lidar_loop_dry [OF assms l] Inr c by simp
    show ?thesis
      using l fs1 Inr c b p assms
      by (simp add: correct_record_def Let_def shift_annotations_dry)
  qed
qed

lemma correct_record_dry_fs:
  assumes "dry_run a" and "correct_record f a fs rec marker sap sd sa = (fs', out, r)"
  shows "fs' = fs"
  using assms(2) unfolding correct_record_dry [OF assms(1)]
  by (auto split: prod.splits sum.splits)

lemma process_record_dry:
  assumes "dry_run a" and "process_record f a fs rec = (fs', out, r)"
  shows "fs' = fs"
proof (cases "skipped a fs rec")
  case True
  then show ?thesis using process_record_skipped [OF True, of f] assms(2) by auto
next
  case False
  show ?thesis
    using assms(2) unfolding process_record_unskipped [OF False]
    by (auto split: sum.splits dest: correct_record_dry_fs [OF assms(1)])
qed

lemma main_loop_dry:
  "dry_run a \<Longrightarrow> main_loop f a fs out tot recs = (fs', out', r) \<Longrightarrow> fs' = fs"
proof (induction recs arbitrary: out tot)
  case Nil
  then show ?case by simp
next
  case (Cons rec recs)
  obtain tb tp ta where tot: "tot = (tb, tp, ta)" by (cases tot)
  obtain fs1 o1 r1 where p: "process_record f a fs rec = (fs1, o1, r1)"
    by (cases "process_record f a fs rec")
  have fs1: "fs1 = fs" using process_record_dry [OF Cons.prems(1) p] .
  show ?case
  proof (cases r1)
    case (Inl e)
    then show ?thesis using Cons.prems(2) p fs1 tot by simp
  next
    case (Inr x)
    show ?thesis
    proof (cases x)
      case None
      then show ?thesis using Cons.IH [OF Cons.prems(1)] Cons.prems(2) p fs1 Inr tot
        by simp
    next
      case (Some t)
      obtain b q n where t: "t = (b, q, n)" by (cases t)
      show ?thesis
        using Cons.IH [OF Cons.prems(1)] Cons.prems(2) p fs1 Inr Some t tot by simp
    qed
  qed
qed

lemma main_dry:
  "dry_run a \<Longrightarrow> fst (shift_carla_main f a fs) = fs"
proof -
  assume d: "dry_run a"
  obtain fs' out r where m: "main_loop f a fs [Info_found (length (record_dirs fs (carla_root a))), Info_args]
      (0, 0, 0) (record_dirs fs (carla_root a)) = (fs', out, r)"
    by (metis prod_cases3)
  have "fs' = fs" using main_loop_dry [OF d m] .
  then show ?thesis
    using m by (simp add: shift_carla_main_def Let_def split: sum.splits prod.splits)
qed


lemma correct_record_counts:
  assumes "correct_record f a fs rec marker sap sd sa = (fs', out, Inr (Some (b, p, n)))"
  shows "b = length (filter is_lidar_row sd) \<and> n = length (filter has_translation3 sa)"
proof -
  obtain fs1 r where l: "shift_lidar_entries a rec fs (0, 0) (filter is_lidar_row sd) = (fs1, r)"
    by (cases "shift_lidar_entries a rec fs (0, 0) (filter is_lidar_row sd)")
  show ?thesis
  proof (cases r)
    case (Inl e)
    then show ?thesis using assms l by (simp add: correct_record_def Let_def)
  next
    case (Inr c)
    obtain b1 p1 where c: "c = (b1, p1)" by (cases c)
    have "b1 = 0 + length (filter (\<lambda>sd. get_filename sd \<noteq> []) (filter is_lidar_row sd))"
      using lidar_loop_counts l Inr c by blast
    then have b1: "b1 = length (filter is_lidar_row sd)"
      by (simp only: filter_lidar_nonempty add_0)
    show ?thesis
    proof (cases "shift_annotations f (dry_run a) (delta_z a) sa")
      case (Inl e)
      then show ?thesis using assms l Inr c by (simp add: correct_record_def Let_def)
    next
      case (Inr y)
      obtain sa' n1 where y: "y = (sa', n1)" by (cases y)
      have n1: "n1 = length (filter has_translation3 sa)"
        using shift_annotations_count Inr y by blast
      show ?thesis
        using assms l \<open>r = Inr c\<close> c Inr y b1 n1
        by (simp add: correct_record_def Let_def split: if_splits)
    qed
  qed
qed

lemma process_record_counts:
  assumes "process_record f a fs rec = (fs', out, Inr (Some (b, p, n)))"
    and "load_json fs (path_join (path_join rec (version_dir a)) ''sample_data.json'') = Inr sd"
    and "load_json fs (path_join (path_join rec (version_dir a)) ''sample_annotation.json'') = Inr sa"
  shows "b = length (filter is_lidar_row sd) \<and> n = length (filter has_translation3 sa)"
proof (cases "skipped a fs rec")
  case True
  then show ?thesis using process_record_skipped [OF True, of f] assms(1) by auto
next
  case False
  show ?thesis
    using assms(1) unfolding process_record_unskipped [OF False] assms(2,3)
    by (simp add: correct_record_counts)
qed

text \<open>
  C8. With the dry-run flag set, a run of the corrector leaves the file system exactly as
  it was (no point file rewritten, no annotation table saved, no marker written), for the
  whole run and for each record. For a record that the dry run reports on, the reported
  counts are the number of lidar rows and the number of annotations with a three-element
  translation, no points are counted, and a real run on the same record that completes
  reports the same two counts.
\<close>

theorem dry_run_mutates_nothing:
  assumes "dry_run a"
  shows "fst (shift_carla_main f a fs) = fs \<and>
         fst (process_record f a fs rec) = fs \<and>
         (\<forall>sd sa out b p n.
            load_json fs (path_join (path_join rec (version_dir a)) ''sample_data.json'') = Inr sd \<and>
            load_json fs (path_join (path_join rec (version_dir a)) ''sample_annotation.json'') = Inr sa \<and>
            process_record f a fs rec = (fs, out, Inr (Some (b, p, n))) \<longrightarrow>
              b = length (filter is_lidar_row sd) \<and> p = 0 \<and>
              n = length (filter has_translation3 sa) \<and>
              last out = Dry_would_shift b n \<and>
              (\<forall>fs2 out2 b2 p2 n2.
                 process_record f (a\<lparr>dry_run := False\<rparr>) fs rec = (fs2, out2, Inr (Some (b2, p2, n2)))
                   \<longrightarrow> b2 = b \<and> n2 = n))"
proof -
  have 1: "fst (shift_carla_main f a fs) = fs" using assms by (rule main_dry)
  have 2: "fst (process_record f a fs rec) = fs"
    using process_record_dry [OF assms, of f fs rec] by (cases "process_record f a fs rec") auto
  have 3: "b = length (filter is_lidar_row sd) \<and> p = 0 \<and>
              n = length (filter has_translation3 sa) \<and>
              last out = Dry_would_shift b n \<and>
              (\<forall>fs2 out2 b2 p2 n2.
                 process_record f (a\<lparr>dry_run := False\<rparr>) fs rec = (fs2, out2, Inr (Some (b2, p2, n2)))
                   \<longrightarrow> b2 = b \<and> n2 = n)"
    if ld: "load_json fs (path_join (path_join rec (version_dir a)) ''sample_data.json'') = Inr sd"
      and la: "load_json fs (path_join (path_join rec (version_dir a)) ''sample_annotation.json'') = Inr sa"
      and pr: "process_record f a fs rec = (fs, out, Inr (Some (b, p, n)))"
    for sd sa out b p n
  proof -
    have ns: "\<not> skipped a fs rec"
      using process_record_skipped [of a fs rec f] pr by auto
    have c: "b = length (filter is_lidar_row sd) \<and> n = length (filter has_translation3 sa)"
      using process_record_counts [OF pr ld la] .
    have "correct_record f a fs rec (marker_path rec (delta_z a))
            (path_join (path_join rec (version_dir a)) ''sample_annotation.json'') sd sa =
          (fs, out, Inr (Some (b, p, n)))"
      using pr unfolding process_record_unskipped [OF ns] ld la by simp
    then have po: "p = 0 \<and> last out = Dry_would_shift b n"
      unfolding correct_record_dry [OF assms]
      by (auto split: prod.splits sum.splits)
    have "b2 = b \<and> n2 = n"
      if "process_record f (a\<lparr>dry_run := False\<rparr>) fs rec = (fs2, out2, Inr (Some (b2, p2, n2)))"
      for fs2 out2 b2 p2 n2
      using process_record_counts [OF that] ld la c by simp
    with c po show ?thesis by blast
  qed
  show ?thesis using 1 2 3 by blast
qed

theorem dry_run_mutates_nothing_witness:
  "dry_run (ex_args\<lparr>dry_run := True\<rparr>) \<and>
   shift_carla_main (\<lambda>s. None) (ex_args\<lparr>dry_run := True\<rparr>) ex_fs =
     (ex_fs, [Info_found 1, Info_args, Rec_shifting ''/d/record_1'' 1, Dry_would_shift 1 1,
              Summary_dry 1 1], Inr (1, 0, 1)) \<and>
   fst (shift_carla_main (\<lambda>s. None) ex_args ex_fs) \<noteq> ex_fs"
proof -
  have d: "dry_run (ex_args\<lparr>dry_run := True\<rparr>)" by simp
  have v: "shift_carla_main (\<lambda>s. None) (ex_args\<lparr>dry_run := True\<rparr>) ex_fs =
     (ex_fs, [Info_found 1, Info_args, Rec_shifting ''/d/record_1'' 1, Dry_would_shift 1 1,
              Summary_dry 1 1], Inr (1, 0, 1))"
    by (simp add: ex_args_def ex_fs_def shift_carla_main_def eval_defs has_translation3_def)
  have n: "fst (shift_carla_main (\<lambda>s. None) ex_args ex_fs) \<noteq> ex_fs"
    by (simp add: ex_args_def ex_fs_def shift_carla_main_def eval_defs shift_array_def add_z_def
        reshape.simps)
  show ?thesis
    using d v n dry_run_mutates_nothing [OF d, of "\<lambda>s. None" ex_fs "''/d/record_1''"] by simp
qed

section \<open>Properties of the Spatial Corrector: annotations and the marker\<close>

lemma map_of_write: "map_of (write_file fs p c) = (map_of fs)(p \<mapsto> File c)"
  by (simp add: write_file_def update_conv')

lemma isdir_write: "isdir (write_file fs p c) q = (q \<noteq> p \<and> isdir fs q)"
  by (simp add: isdir_def map_of_write)

lemma isfile_write: "isfile (write_file fs p c) q = (q = p \<or> isfile fs q)"
  by (simp add: isfile_def map_of_write)

lemma exists_write: "exists (write_file fs p c) q = (q = p \<or> exists fs q)"
  by (simp add: exists_def map_of_write)

lemma last_path_join: "b \<noteq> [] \<Longrightarrow> last (path_join a b) = last b"
  by (simp add: path_join_def)

lemma digit_char_digit: "digit_char n \<in> set ''0123456789''"
  unfolding digit_char_def by (rule nth_mem) simp

lemma last_marker_path: "last (marker_path rec dz) \<in> set ''0123456789''"
proof -
  have "last (marker_path rec dz) = last (''.zshifted_'' @ format_plus_3f dz)"
    unfolding marker_path_def by (rule last_path_join) simp
  also have "\<dots> = digit_char (nat (round_half_even (\<bar>dz\<bar> * 1000)))"
    by (simp add: format_plus_3f_def Let_def)
  finally show ?thesis using digit_char_digit by simp
qed

lemma marker_not_table:
  "marker_path rec dz \<noteq> path_join v ''sample_annotation.json''"
  "marker_path rec dz \<noteq> path_join v ''sample_data.json''"
proof -
  have "last (path_join v ''sample_annotation.json'') = CHR ''n''"
    by (simp add: last_path_join)
  then show "marker_path rec dz \<noteq> path_join v ''sample_annotation.json''"
    using last_marker_path [of rec dz] by auto
  have "last (path_join v ''sample_data.json'') = CHR ''n''"
    by (simp add: last_path_join)
  then show "marker_path rec dz \<noteq> path_join v ''sample_data.json''"
    using last_marker_path [of rec dz] by auto
qed

lemma vertical_corrected:
  "vertical f ann = Some r \<Longrightarrow> vertical f (corrected_ann f dz ann) = Some (r + dz)"
  by (auto simp: vertical_def corrected_ann_def update_conv'
      split: option.splits json.splits list.splits sum.splits)

lemma has_translation3_vertical:
  "vertical f ann \<noteq> None \<Longrightarrow> has_translation3 ann"
  by (auto simp: vertical_def has_translation3_def split: option.splits json.splits list.splits)

lemma shift_ann_nondry:
  "shift_ann f False dz ann =
     (if has_translation3 ann \<and> vertical f ann = None
      then Inl (case map_of ann ''translation'' of
                  Some (JArr [x, y, z]) \<Rightarrow> (case py_float f z of Inl e \<Rightarrow> e | Inr r \<Rightarrow> TypeError_float)
                | _ \<Rightarrow> TypeError_float)
      else Inr (corrected_ann f dz ann, has_translation3 ann))"
  by (auto simp: vertical_def has_translation3_def corrected_ann_def
      split: option.splits json.splits list.splits sum.splits)

lemma shift_annotations_nondry:
  "(\<forall>ann \<in> set sa. has_translation3 ann \<longrightarrow> vertical f ann \<noteq> None) \<Longrightarrow>
   shift_annotations f False dz sa =
     Inr (map (corrected_ann f dz) sa, length (filter has_translation3 sa))"
  by (induction sa) (auto simp: shift_ann_nondry simp del: shift_ann.simps)

lemma shift_annotations_nondry_conv:
  "shift_annotations f False dz sa = Inr (sa', n) \<Longrightarrow>
     sa' = map (corrected_ann f dz) sa \<and>
     (\<forall>ann \<in> set sa. has_translation3 ann \<longrightarrow> vertical f ann \<noteq> None)"
proof (induction sa arbitrary: sa' n)
  case Nil
  then show ?case by simp
next
  case (Cons ann sa)
  then show ?case
    by (auto simp: shift_ann_nondry simp del: shift_ann.simps split: if_splits sum.splits prod.splits)
qed


lemma correct_record_no_lidar:
  assumes "\<not> dry_run a" and "filter is_lidar_row sd = []"
    and "\<forall>ann \<in> set sa. has_translation3 ann \<longrightarrow> vertical f ann \<noteq> None"
    and "\<not> isdir fs marker" and "marker \<noteq> sap"
  shows "correct_record f a fs rec marker sap sd sa =
     (write_file (write_file fs sap (Table (map (corrected_ann f (delta_z a)) sa))) marker
        (Text (''shifted'' @ [CHR 0x0A])),
      [Warn_no_lidar_entries rec, Ok_shifted 0 0 (length (filter has_translation3 sa))],
      Inr (Some (0, 0, length (filter has_translation3 sa))))"
  using assms
  by (simp add: correct_record_def Let_def shift_annotations_nondry isdir_write)

text \<open>
  C10. In a run that is not a dry run, a record that is not skipped and whose sample-data
  table has no row matched by the lidar filename heuristic is still corrected: the warning
  is printed, every annotation with a three-element translation has the offset added to
  its vertical component (the others are left as they are), the annotation table is saved,
  and the marker file is written; every other path of the file system, the point files
  among them, is as before. Here every three-element translation has a vertical component
  that \<^verbatim>\<open>float\<close> accepts, and the marker path is not a directory.
\<close>

theorem no_lidar_rows_still_corrects:
  assumes "\<not> dry_run a" and "\<not> skipped a fs rec"
    and "load_json fs (path_join (path_join rec (version_dir a)) ''sample_data.json'') = Inr sd"
    and "load_json fs (path_join (path_join rec (version_dir a)) ''sample_annotation.json'') = Inr sa"
    and "filter is_lidar_row sd = []"
    and "\<forall>ann \<in> set sa. has_translation3 ann \<longrightarrow> vertical f ann \<noteq> None"
    and "\<not> isdir fs (marker_path rec (delta_z a))"
    and "process_record f a fs rec = (fs', out, r)"
  shows "out = [Warn_no_lidar_entries rec, Ok_shifted 0 0 (length (filter has_translation3 sa))] \<and>
         r = Inr (Some (0, 0, length (filter has_translation3 sa))) \<and>
         load_json fs' (path_join (path_join rec (version_dir a)) ''sample_annotation.json'') =
           Inr (map (corrected_ann f (delta_z a)) sa) \<and>
         (\<forall>ann \<in> set sa. \<forall>z. vertical f ann = Some z \<longrightarrow>
            vertical f (corrected_ann f (delta_z a) ann) = Some (z + delta_z a)) \<and>
         (\<forall>ann \<in> set sa. \<not> has_translation3 ann \<longrightarrow> corrected_ann f (delta_z a) ann = ann) \<and>
         map_of fs' (marker_path rec (delta_z a)) = Some (File (Text (''shifted'' @ [CHR 0x0A]))) \<and>
         (\<forall>p. p \<noteq> marker_path rec (delta_z a) \<and>
              p \<noteq> path_join (path_join rec (version_dir a)) ''sample_annotation.json'' \<longrightarrow>
              map_of fs' p = map_of fs p)"
proof -
  let ?sap = "path_join (path_join rec (version_dir a)) ''sample_annotation.json''"
  let ?m = "marker_path rec (delta_z a)"
  have ne: "?m \<noteq> ?sap" by (rule marker_not_table)
  have pr: "process_record f a fs rec =
     (write_file (write_file fs ?sap (Table (map (corrected_ann f (delta_z a)) sa))) ?m
        (Text (''shifted'' @ [CHR 0x0A])),
      [Warn_no_lidar_entries rec, Ok_shifted 0 0 (length (filter has_translation3 sa))],
      Inr (Some (0, 0, length (filter has_translation3 sa))))"
    unfolding process_record_unskipped [OF assms(2)] assms(3,4)
    using correct_record_no_lidar [OF assms(1,5,6,7) ne] by simp
  have fs': "fs' = write_file (write_file fs ?sap (Table (map (corrected_ann f (delta_z a)) sa))) ?m
        (Text (''shifted'' @ [CHR 0x0A]))"
    and out: "out = [Warn_no_lidar_entries rec, Ok_shifted 0 0 (length (filter has_translation3 sa))]"
    and r: "r = Inr (Some (0, 0, length (filter has_translation3 sa)))"
    using pr assms(8) by simp_all
  have l: "load_json fs' ?sap = Inr (map (corrected_ann f (delta_z a)) sa)"
    using ne by (simp add: fs' load_json_def map_of_write)
  have v: "\<forall>ann \<in> set sa. \<forall>z. vertical f ann = Some z \<longrightarrow>
            vertical f (corrected_ann f (delta_z a) ann) = Some (z + delta_z a)"
    by (simp add: vertical_corrected)
  have u: "\<forall>ann \<in> set sa. \<not> has_translation3 ann \<longrightarrow> corrected_ann f (delta_z a) ann = ann"
    by (auto simp: has_translation3_def corrected_ann_def split: option.splits json.splits list.splits)
  have m: "map_of fs' ?m = Some (File (Text (''shifted'' @ [CHR 0x0A])))"
    by (simp add: fs' map_of_write)
  have o: "\<forall>p. p \<noteq> ?m \<and> p \<noteq> ?sap \<longrightarrow> map_of fs' p = map_of fs p"
    by (simp add: fs' map_of_write)
  show ?thesis using out r l v u m o by blast
qed

theorem no_lidar_rows_still_corrects_witness:
  "\<not> dry_run ex_args \<and> \<not> skipped ex_args ex_fs_cam ''/d/record_1'' \<and>
   filter is_lidar_row [[(''filename'', JStr ''samples/CAM_FRONT/a.jpg'')]] = [] \<and>
   process_record (\<lambda>s. None) ex_args ex_fs_cam ''/d/record_1'' =
     ([(''/d'', Dir), (''/d/record_1'', Dir), (''/d/record_1/v'', Dir),
       (''/d/record_1/v/sample_data.json'',
          File (Table [[(''filename'', JStr ''samples/CAM_FRONT/a.jpg'')]])),
       (''/d/record_1/v/sample_annotation.json'',
          File (Table [[(''translation'', JArr [JNum 1, JNum 2, JNum (7 / 5)])], [(''size'', JArr [JNum 1])]])),
       (''/d/record_1/samples/LIDAR_TOP/a.bin'', File (Floats [1, 2, 3, 4, 5, 6, 7, 8])),
       (''/d/record_1/.zshifted_+0.400'', File (Text (''shifted'' @ [CHR 0x0A])))],
      [Warn_no_lidar_entries ''/d/record_1'', Ok_shifted 0 0 1], Inr (Some (0, 0, 1)))"
proof -
  let ?sd = "[[(''filename'', JStr ''samples/CAM_FRONT/a.jpg'')]]"
  let ?sa = "[[(''translation'', JArr [JNum 1, JNum 2, JNum 1])], [(''size'', JArr [JNum 1])]]"
  have h1: "\<not> dry_run ex_args" by (simp add: ex_args_def)
  have h2: "\<not> skipped ex_args ex_fs_cam ''/d/record_1''"
    by (simp add: ex_args_def ex_fs_cam_def eval_defs)
  have h3: "load_json ex_fs_cam (path_join (path_join ''/d/record_1'' (version_dir ex_args)) ''sample_data.json'') = Inr ?sd"
    by (simp add: ex_args_def ex_fs_cam_def eval_defs)
  have h4: "load_json ex_fs_cam (path_join (path_join ''/d/record_1'' (version_dir ex_args)) ''sample_annotation.json'') = Inr ?sa"
    by (simp add: ex_args_def ex_fs_cam_def eval_defs)
  have h5: "filter is_lidar_row ?sd = []"
    by (simp add: eval_defs suffix_to_prefix)
  have h6: "\<forall>ann \<in> set ?sa. has_translation3 ann \<longrightarrow> vertical (\<lambda>s. None) ann \<noteq> None"
    by (simp add: has_translation3_def vertical_def)
  have h7: "\<not> isdir ex_fs_cam (marker_path ''/d/record_1'' (delta_z ex_args))"
    by (simp add: ex_args_def ex_fs_cam_def eval_defs)
  have v: "process_record (\<lambda>s. None) ex_args ex_fs_cam ''/d/record_1'' =
     ([(''/d'', Dir), (''/d/record_1'', Dir), (''/d/record_1/v'', Dir),
       (''/d/record_1/v/sample_data.json'',
          File (Table [[(''filename'', JStr ''samples/CAM_FRONT/a.jpg'')]])),
       (''/d/record_1/v/sample_annotation.json'',
          File (Table [[(''translation'', JArr [JNum 1, JNum 2, JNum (7 / 5)])], [(''size'', JArr [JNum 1])]])),
       (''/d/record_1/samples/LIDAR_TOP/a.bin'', File (Floats [1, 2, 3, 4, 5, 6, 7, 8])),
       (''/d/record_1/.zshifted_+0.400'', File (Text (''shifted'' @ [CHR 0x0A])))],
      [Warn_no_lidar_entries ''/d/record_1'', Ok_shifted 0 0 1], Inr (Some (0, 0, 1)))"
    by (simp add: ex_args_def ex_fs_cam_def eval_defs suffix_to_prefix show_nat.simps
        digit_char_def shift_annotations_nondry has_translation3_def vertical_def corrected_ann_def)
  show ?thesis
    using h1 h2 h5 v no_lidar_rows_still_corrects [OF h1 h2 h3 h4 h5 h6 h7 v] by simp
qed

section \<open>Properties of the Spatial Corrector: a corrected record\<close>

lemma shift_array_unfold:
  "0 < d \<Longrightarrow> arr \<noteq> [] \<Longrightarrow>
   shift_array d dz arr = add_z dz (take d arr) @ shift_array d dz (drop d arr)"
  by (subst shift_array_def, subst reshape.simps) (simp add: shift_array_def)

lemma shift_array_Nil: "shift_array d dz [] = []"
  by (simp add: shift_array_def reshape.simps)

lemma add_z_nth:
  "i < length row \<Longrightarrow> add_z dz row ! i = (if i = 2 then row ! i + dz else row ! i)"
  by (simp add: add_z_def nth_list_update)

lemma length_add_z: "length (add_z dz row) = length row"
  by (simp add: add_z_def)

lemma shift_array_nth:
  assumes "0 < d"
  shows "length (shift_array d dz arr) = length arr \<and>
         (\<forall>i < length arr. shift_array d dz arr ! i =
            (if i mod d = 2 then arr ! i + dz else arr ! i))"
proof (induction arr rule: length_induct)
  case (1 arr)
  show ?case
  proof (cases "arr = []")
    case True
    then show ?thesis by (simp add: shift_array_Nil)
  next
    case False
    let ?rest = "drop d arr"
    have "length ?rest < length arr" using assms False by simp
    then have IH: "length (shift_array d dz ?rest) = length ?rest"
      "\<And>j. j < length ?rest \<Longrightarrow> shift_array d dz ?rest ! j =
          (if j mod d = 2 then ?rest ! j + dz else ?rest ! j)"
      using 1 by blast+
    have u: "shift_array d dz arr = add_z dz (take d arr) @ shift_array d dz ?rest"
      using assms False by (rule shift_array_unfold)
    have len: "length (shift_array d dz arr) = length arr"
      by (simp add: u IH(1) length_add_z)
    have nth: "shift_array d dz arr ! i = (if i mod d = 2 then arr ! i + dz else arr ! i)"
      if i: "i < length arr" for i
    proof (cases "i < d")
      case True
      then have "i < length (take d arr)" using i by simp
      then have "shift_array d dz arr ! i = add_z dz (take d arr) ! i"
        by (simp add: u nth_append length_add_z)
      also have "\<dots> = (if i = 2 then take d arr ! i + dz else take d arr ! i)"
        using \<open>i < length (take d arr)\<close> by (rule add_z_nth)
      finally show ?thesis using True by simp
    next
      case False
      then have ge: "d \<le> i" by simp
      then have dl: "d \<le> length arr" using i by simp
      have j: "i - d < length ?rest" using i ge by simp
      have "shift_array d dz arr ! i = shift_array d dz ?rest ! (i - d)"
        using ge dl by (simp add: u nth_append length_add_z min_def)
      also have "\<dots> = (if (i - d) mod d = 2 then ?rest ! (i - d) + dz else ?rest ! (i - d))"
        using IH(2) [OF j] .
      also have "(i - d) mod d = i mod d" using ge by (simp add: le_mod_geq)
      also have "?rest ! (i - d) = arr ! i" using ge dl by simp
      finally show ?thesis .
    qed
    show ?thesis using len nth by simp
  qed
qed

lemma shift_array_funpow_nth:
  assumes "0 < d"
  shows "length ((shift_array d dz ^^ k) arr) = length arr \<and>
         (\<forall>i < length arr. (shift_array d dz ^^ k) arr ! i =
            (if i mod d = 2 then arr ! i + of_nat k * dz else arr ! i))"
proof (induction k)
  case 0
  then show ?case by simp
next
  case (Suc k)
  let ?b = "(shift_array d dz ^^ k) arr"
  have s: "length (shift_array d dz ?b) = length ?b"
     "\<And>i. i < length ?b \<Longrightarrow> shift_array d dz ?b ! i = (if i mod d = 2 then ?b ! i + dz else ?b ! i)"
    using shift_array_nth [OF assms, of dz ?b] by simp_all
  show ?case
    using Suc s by (simp add: algebra_simps)
qed

lemma keys_write_existing:
  "map_of fs p \<noteq> None \<Longrightarrow> map fst (write_file fs p c) = map fst fs"
  by (simp add: write_file_def update_keys map_of_eq_None_iff)

lemma keys_write_new:
  "map_of fs p = None \<Longrightarrow> map fst (write_file fs p c) = map fst fs @ [p]"
  by (simp add: write_file_def update_keys map_of_eq_None_iff)

lemma resolve_bin_cong:
  assumes "all_paths fs' = all_paths fs" and "\<And>q. isfile fs' q = isfile fs q"
  shows "resolve_bin fs' croot rec raw = resolve_bin fs croot rec raw"
  using assms by (simp add: resolve_bin_def glob_basename_def Let_def)

lemma resolved_paths_cong:
  assumes "all_paths fs' = all_paths fs" and "\<And>q. isfile fs' q = isfile fs q"
  shows "resolved_paths fs' croot rec sds = resolved_paths fs croot rec sds"
  using resolve_bin_cong [OF assms] by (simp add: resolved_paths_def)

lemma shift_bin_success:
  assumes "shift_bin_inplace fs p d dz = (fs', Inr n)"
  shows "\<exists>arr. map_of fs p = Some (File (Floats arr)) \<and>
           fs' = write_file fs p (Floats (shift_array d dz arr)) \<and> 3 \<le> d"
  using assms
  by (auto simp: shift_bin_inplace_def fromfile_def
      split: option.splits node.splits content.splits if_splits)


lemma shift_node_Dir [simp]: "shift_node d dz k Dir = Dir"
  by simp

lemma shift_node_File: "\<exists>c'. shift_node d dz k (File c) = File c'"
  by (cases c) simp_all

lemma shift_node_not_Dir [simp]: "shift_node d dz k (File c) \<noteq> Dir"
  by (cases c) simp_all

lemma shift_node_0 [simp]: "shift_node d dz 0 n = n"
proof (cases n)
  case Dir
  then show ?thesis by simp
next
  case (File c)
  then show ?thesis by (cases c) simp_all
qed

lemma shape_of_effect:
  assumes "\<And>q. map_of fs' q = map_option (shift_node d dz (k q)) (map_of fs q)"
  shows "isfile fs' q = isfile fs q" and "isdir fs' q = isdir fs q" and "exists fs' q = exists fs q"
proof -
  have kind: "(map_of fs' q = Some Dir) = (map_of fs q = Some Dir)"
    "(\<exists>c. map_of fs' q = Some (File c)) = (\<exists>c. map_of fs q = Some (File c))"
  proof -
    show "(map_of fs' q = Some Dir) = (map_of fs q = Some Dir)"
    proof (cases "map_of fs q")
      case None
      then show ?thesis by (simp add: assms)
    next
      case (Some n)
      then show ?thesis by (cases n) (auto simp: assms)
    qed
    show "(\<exists>c. map_of fs' q = Some (File c)) = (\<exists>c. map_of fs q = Some (File c))"
    proof (cases "map_of fs q")
      case None
      then show ?thesis by (simp add: assms)
    next
      case (Some n)
      then show ?thesis
      proof (cases n)
        case Dir
        then show ?thesis using Some by (simp add: assms)
      next
        case (File c)
        then show ?thesis using Some shift_node_File [of d dz "k q" c] by (simp add: assms)
      qed
    qed
  qed
  show "isdir fs' q = isdir fs q" using kind(1) by (simp add: isdir_def)
  show "exists fs' q = exists fs q" by (simp add: exists_def assms)
  show "isfile fs' q = isfile fs q"
    using kind by (auto simp: isfile_def split: option.splits node.splits)
qed

lemma resolved_paths_Cons:
  "resolved_paths fs croot rec (sd # sds) =
     (if get_filename sd = [] then []
      else case resolve_bin fs croot rec (get_filename sd) of Inr p \<Rightarrow> [p] | Inl e \<Rightarrow> [])
     @ resolved_paths fs croot rec sds"
  by (simp add: resolved_paths_def)

lemma lidar_loop_effect:
  assumes nd: "\<not> dry_run a"
  shows "shift_lidar_entries a rec fs cnt sds = (fs', Inr cnt') \<Longrightarrow>
     map fst fs' = map fst fs \<and>
     (\<forall>q. map_of fs' q =
        map_option (shift_node (point_dim a) (delta_z a)
          (count_list (resolved_paths fs (carla_root a) rec sds) q)) (map_of fs q)) \<and>
     (\<forall>q \<in> set (resolved_paths fs (carla_root a) rec sds). \<exists>arr. map_of fs q = Some (File (Floats arr))) \<and>
     length (resolved_paths fs (carla_root a) rec sds) = length (filter (\<lambda>sd. get_filename sd \<noteq> []) sds)"
proof (induction sds arbitrary: fs cnt)
  case Nil
  obtain b p where "cnt = (b, p)" by (cases cnt)
  with Nil have "fs' = fs" by simp
  moreover have "shift_node (point_dim a) (delta_z a) 0 = (\<lambda>n. n)" by (rule ext) simp
  ultimately show ?case by (simp add: resolved_paths_def option.map_ident)
next
  case (Cons sd sds)
  obtain b p where cnt: "cnt = (b, p)" by (cases cnt)
  show ?case
  proof (cases "get_filename sd = []")
    case True
    then have "shift_lidar_entries a rec fs cnt sds = (fs', Inr cnt')"
      using Cons.prems cnt by simp
    from Cons.IH [OF this] show ?thesis by (simp add: resolved_paths_Cons True)
  next
    case False
    from Cons.prems cnt False obtain bp where
      rb: "resolve_bin fs (carla_root a) rec (get_filename sd) = Inr bp"
      by (cases "resolve_bin fs (carla_root a) rec (get_filename sd)") auto
    obtain fs1 r1 where sb: "shift_bin_inplace fs bp (point_dim a) (delta_z a) = (fs1, r1)"
      by (cases "shift_bin_inplace fs bp (point_dim a) (delta_z a)")
    from Cons.prems cnt False rb sb nd obtain npts where r1: "r1 = Inr npts"
      by (cases r1) auto
    have rest: "shift_lidar_entries a rec fs1 (b + 1, p + npts) sds = (fs', Inr cnt')"
      using Cons.prems cnt False rb sb nd r1 by simp
    from shift_bin_success [OF sb [unfolded r1]] obtain arr where
      arr: "map_of fs bp = Some (File (Floats arr))"
      and fs1: "fs1 = write_file fs bp (Floats (shift_array (point_dim a) (delta_z a) arr))"
      by blast
    have keys1: "map fst fs1 = map fst fs"
      unfolding fs1 by (rule keys_write_existing) (simp add: arr)
    have m1: "map_of fs1 q = (if q = bp then Some (File (Floats (shift_array (point_dim a) (delta_z a) arr)))
                              else map_of fs q)" for q
      by (simp add: fs1 map_of_write)
    have f1: "isfile fs1 q = isfile fs q" for q
      by (simp add: isfile_def m1 arr)
    have rp: "resolved_paths fs1 (carla_root a) rec sds = resolved_paths fs (carla_root a) rec sds"
      by (rule resolved_paths_cong) (simp_all add: all_paths_def keys1 f1)
    from Cons.IH [OF rest] have
      k: "map fst fs' = map fst fs1"
      and e: "\<And>q. map_of fs' q =
        map_option (shift_node (point_dim a) (delta_z a)
          (count_list (resolved_paths fs (carla_root a) rec sds) q)) (map_of fs1 q)"
      and fl: "\<And>q. q \<in> set (resolved_paths fs (carla_root a) rec sds) \<Longrightarrow>
                 \<exists>arr. map_of fs1 q = Some (File (Floats arr))"
      and ln: "length (resolved_paths fs (carla_root a) rec sds) =
                 length (filter (\<lambda>sd. get_filename sd \<noteq> []) sds)"
      unfolding rp by simp_all
    have 1: "map_of fs' q =
        map_option (shift_node (point_dim a) (delta_z a)
          (count_list (resolved_paths fs (carla_root a) rec (sd # sds)) q)) (map_of fs q)" for q
      by (simp add: e m1 resolved_paths_Cons False rb arr funpow_swap1)
    have 2: "\<exists>arr. map_of fs q = Some (File (Floats arr))"
      if "q \<in> set (resolved_paths fs (carla_root a) rec (sd # sds))" for q
    proof (cases "q = bp")
      case True
      then show ?thesis using arr by simp
    next
      case False
      then have "q \<in> set (resolved_paths fs (carla_root a) rec sds)"
        using that \<open>get_filename sd \<noteq> []\<close> rb by (simp add: resolved_paths_Cons)
      from fl [OF this] show ?thesis using False by (simp add: m1)
    qed
    have 3: "length (resolved_paths fs (carla_root a) rec (sd # sds)) =
                 length (filter (\<lambda>sd. get_filename sd \<noteq> []) (sd # sds))"
      using ln False rb by (simp add: resolved_paths_Cons)
    show ?thesis using k keys1 1 2 3 by simp
  qed
qed

lemma correct_record_nondry_success:
  assumes "\<not> dry_run a"
    and "correct_record f a fs rec marker sap sd sa = (fs', out, Inr (Some (b, p, n)))"
  shows "\<exists>fs1. shift_lidar_entries a rec fs (0, 0) (filter is_lidar_row sd) = (fs1, Inr (b, p)) \<and>
           shift_annotations f False (delta_z a) sa = Inr (map (corrected_ann f (delta_z a)) sa, n) \<and>
           (\<forall>ann \<in> set sa. has_translation3 ann \<longrightarrow> vertical f ann \<noteq> None) \<and>
           \<not> isdir (write_file fs1 sap (Table (map (corrected_ann f (delta_z a)) sa))) marker \<and>
           fs' = write_file (write_file fs1 sap (Table (map (corrected_ann f (delta_z a)) sa))) marker
                   (Text (''shifted'' @ [CHR 0x0A]))"
proof -
  obtain fs1 r where l: "shift_lidar_entries a rec fs (0, 0) (filter is_lidar_row sd) = (fs1, r)"
    by (cases "shift_lidar_entries a rec fs (0, 0) (filter is_lidar_row sd)")
  show ?thesis
  proof (cases r)
    case (Inl e)
    then show ?thesis using assms l by (simp add: correct_record_def Let_def)
  next
    case (Inr c)
    obtain b1 p1 where c: "c = (b1, p1)" by (cases c)
    show ?thesis
    proof (cases "shift_annotations f False (delta_z a) sa")
      case (Inl e)
      then show ?thesis using assms l Inr c by (simp add: correct_record_def Let_def)
    next
      case (Inr y)
      obtain sa' n1 where y: "y = (sa', n1)" by (cases y)
      have sa': "sa' = map (corrected_ann f (delta_z a)) sa"
        and wf: "\<forall>ann \<in> set sa. has_translation3 ann \<longrightarrow> vertical f ann \<noteq> None"
        using shift_annotations_nondry_conv [OF Inr [unfolded y]] by simp_all
      show ?thesis
        using assms l \<open>r = Inr c\<close> c Inr y sa' wf
        by (simp add: correct_record_def Let_def split: if_splits)
    qed
  qed
qed


text \<open>
  C1 (as amended). When a run that is not a dry run has corrected a record, every lidar
  row has been resolved to a point file; every point file of the file system (other than
  the marker path) keeps its length and every value outside the third column, and each
  value of the third column has grown by the offset once for every lidar row that resolves
  to that file: by exactly the offset when one row names the file, not at all when none
  does. The saved annotation table is the old one with the offset added to the vertical
  component of every three-element translation. Values are reals.
\<close>

theorem correction_offset_consistent:
  assumes "\<not> dry_run a" and "0 < point_dim a"
    and "load_json fs (path_join (path_join rec (version_dir a)) ''sample_data.json'') = Inr sd"
    and "load_json fs (path_join (path_join rec (version_dir a)) ''sample_annotation.json'') = Inr sa"
    and "process_record f a fs rec = (fs', out, Inr (Some (b, p, n)))"
  shows "length (resolved_paths fs (carla_root a) rec (filter is_lidar_row sd)) = b \<and>
     (\<forall>q \<in> set (resolved_paths fs (carla_root a) rec (filter is_lidar_row sd)).
        \<exists>arr. map_of fs q = Some (File (Floats arr))) \<and>
     (\<forall>q arr. map_of fs q = Some (File (Floats arr)) \<and> q \<noteq> marker_path rec (delta_z a) \<longrightarrow>
        (\<exists>arr'. map_of fs' q = Some (File (Floats arr')) \<and> length arr' = length arr \<and>
           (\<forall>i < length arr. arr' ! i =
              (if i mod point_dim a = 2
               then arr ! i + of_nat (count_list (resolved_paths fs (carla_root a) rec
                                        (filter is_lidar_row sd)) q) * delta_z a
               else arr ! i)))) \<and>
     load_json fs' (path_join (path_join rec (version_dir a)) ''sample_annotation.json'') =
       Inr (map (corrected_ann f (delta_z a)) sa) \<and>
     (\<forall>ann \<in> set sa. has_translation3 ann \<longrightarrow>
        (\<exists>z. vertical f ann = Some z \<and>
             vertical f (corrected_ann f (delta_z a) ann) = Some (z + delta_z a)))"
proof -
  let ?sap = "path_join (path_join rec (version_dir a)) ''sample_annotation.json''"
  let ?m = "marker_path rec (delta_z a)"
  let ?ps = "resolved_paths fs (carla_root a) rec (filter is_lidar_row sd)"
  let ?sa' = "map (corrected_ann f (delta_z a)) sa"
  have ns: "\<not> skipped a fs rec"
    using process_record_skipped [of a fs rec f] assms(5) by auto
  have cr: "correct_record f a fs rec ?m ?sap sd sa = (fs', out, Inr (Some (b, p, n)))"
    using assms(5) unfolding process_record_unskipped [OF ns] assms(3,4) by simp
  from correct_record_nondry_success [OF assms(1) cr] obtain fs1 where
    l: "shift_lidar_entries a rec fs (0, 0) (filter is_lidar_row sd) = (fs1, Inr (b, p))"
    and wf: "\<forall>ann \<in> set sa. has_translation3 ann \<longrightarrow> vertical f ann \<noteq> None"
    and fs': "fs' = write_file (write_file fs1 ?sap (Table ?sa')) ?m (Text (''shifted'' @ [CHR 0x0A]))"
    by blast
  note eff = lidar_loop_effect [OF assms(1) l]
  have ne: "?m \<noteq> ?sap" by (rule marker_not_table)
  have 1: "length ?ps = b"
    using eff lidar_loop_counts [OF l] by (simp only: filter_lidar_nonempty add_0)
  have 2: "\<forall>q \<in> set ?ps. \<exists>arr. map_of fs q = Some (File (Floats arr))"
    using eff by blast
  have sap_tab: "map_of fs ?sap = Some (File (Table sa))"
    using assms(4) by (auto simp: load_json_def split: option.splits node.splits content.splits)
  have 3: "\<exists>arr'. map_of fs' q = Some (File (Floats arr')) \<and> length arr' = length arr \<and>
           (\<forall>i < length arr. arr' ! i =
              (if i mod point_dim a = 2
               then arr ! i + of_nat (count_list ?ps q) * delta_z a
               else arr ! i))"
    if q: "map_of fs q = Some (File (Floats arr))" and qm: "q \<noteq> ?m" for q arr
  proof -
    have "q \<noteq> ?sap" using q sap_tab by auto
    then have "map_of fs' q = map_of fs1 q" using qm by (simp add: fs' map_of_write)
    also have "\<dots> = Some (File (Floats ((shift_array (point_dim a) (delta_z a) ^^ count_list ?ps q) arr)))"
      using eff q by simp
    finally show ?thesis
      using shift_array_funpow_nth [OF assms(2), where dz = "delta_z a" and k = "count_list ?ps q" and arr = arr]
      by simp
  qed
  have 4: "load_json fs' ?sap = Inr ?sa'"
    using ne by (simp add: fs' load_json_def map_of_write)
  have 5: "\<exists>z. vertical f ann = Some z \<and>
             vertical f (corrected_ann f (delta_z a) ann) = Some (z + delta_z a)"
    if "ann \<in> set sa" and "has_translation3 ann" for ann
  proof -
    from wf that obtain z where "vertical f ann = Some z" by auto
    then show ?thesis using vertical_corrected by blast
  qed
  show ?thesis using 1 2 3 4 5 by blast
qed


lemmas eval_more = eval_defs show_nat.simps digit_char_def shift_annotations_nondry
  has_translation3_def vertical_def corrected_ann_def shift_array_def add_z_def reshape.simps
  suffix_to_prefix

theorem correction_offset_consistent_witness:
  "\<not> dry_run ex_args \<and> 0 < point_dim ex_args \<and>
   process_record (\<lambda>s. None) ex_args ex_fs ''/d/record_1'' =
     ([(''/d'', Dir), (''/d/record_1'', Dir), (''/d/record_1/v'', Dir),
       (''/d/record_1/v/sample_data.json'',
          File (Table [[(''filename'', JStr ''samples/LIDAR_TOP/a.bin'')]])),
       (''/d/record_1/v/sample_annotation.json'',
          File (Table [[(''translation'', JArr [JNum 1, JNum 2, JNum (7 / 5)])]])),
       (''/d/record_1/samples/LIDAR_TOP/a.bin'',
          File (Floats [1, 2, 17 / 5, 4, 5, 6, 37 / 5, 8])),
       (''/d/record_1/.zshifted_+0.400'', File (Text (''shifted'' @ [CHR 0x0A])))],
      [Rec_shifting ''/d/record_1'' 1, Ok_shifted 1 2 1], Inr (Some (1, 2, 1))) \<and>
   resolved_paths ex_fs (carla_root ex_args) ''/d/record_1''
     (filter is_lidar_row [[(''filename'', JStr ''samples/LIDAR_TOP/a.bin'')]]) =
     [''/d/record_1/samples/LIDAR_TOP/a.bin'']"
proof -
  let ?sd = "[[(''filename'', JStr ''samples/LIDAR_TOP/a.bin'')]]"
  let ?sa = "[[(''translation'', JArr [JNum 1, JNum 2, JNum 1])]]"
  have h1: "\<not> dry_run ex_args" and h2: "0 < point_dim ex_args" by (simp_all add: ex_args_def)
  have h3: "load_json ex_fs (path_join (path_join ''/d/record_1'' (version_dir ex_args)) ''sample_data.json'') = Inr ?sd"
    by (simp add: ex_args_def ex_fs_def eval_defs)
  have h4: "load_json ex_fs (path_join (path_join ''/d/record_1'' (version_dir ex_args)) ''sample_annotation.json'') = Inr ?sa"
    by (simp add: ex_args_def ex_fs_def eval_defs)
  have v: "process_record (\<lambda>s. None) ex_args ex_fs ''/d/record_1'' =
     ([(''/d'', Dir), (''/d/record_1'', Dir), (''/d/record_1/v'', Dir),
       (''/d/record_1/v/sample_data.json'',
          File (Table [[(''filename'', JStr ''samples/LIDAR_TOP/a.bin'')]])),
       (''/d/record_1/v/sample_annotation.json'',
          File (Table [[(''translation'', JArr [JNum 1, JNum 2, JNum (7 / 5)])]])),
       (''/d/record_1/samples/LIDAR_TOP/a.bin'',
          File (Floats [1, 2, 17 / 5, 4, 5, 6, 37 / 5, 8])),
       (''/d/record_1/.zshifted_+0.400'', File (Text (''shifted'' @ [CHR 0x0A])))],
      [Rec_shifting ''/d/record_1'' 1, Ok_shifted 1 2 1], Inr (Some (1, 2, 1)))"
    by (simp add: ex_args_def ex_fs_def eval_more)
  have r: "resolved_paths ex_fs (carla_root ex_args) ''/d/record_1'' (filter is_lidar_row ?sd) =
     [''/d/record_1/samples/LIDAR_TOP/a.bin'']"
    by (simp add: ex_args_def ex_fs_def resolved_paths_def eval_defs)
  show ?thesis
    using h1 h2 v r correction_offset_consistent [OF h1 h2 h3 h4 v] by simp
qed

text \<open>
  The claim as stated fails when two rows of the sample-data table name the same point
  file: the file is shifted twice, so its third column grows by twice the offset.
\<close>

theorem correction_double_shift_counterexample:
  "\<not> dry_run ex_args \<and>
   process_record (\<lambda>s. None) ex_args ex_fs_dup ''/d/record_1'' =
     ([(''/d'', Dir), (''/d/record_1'', Dir), (''/d/record_1/v'', Dir),
       (''/d/record_1/v/sample_data.json'',
          File (Table [[(''filename'', JStr ''samples/LIDAR_TOP/a.bin'')],
                       [(''filename'', JStr ''samples/LIDAR_TOP/a.bin'')]])),
       (''/d/record_1/v/sample_annotation.json'',
          File (Table [[(''translation'', JArr [JNum 1, JNum 2, JNum (7 / 5)])]])),
       (''/d/record_1/samples/LIDAR_TOP/a.bin'',
          File (Floats [1, 2, 19 / 5, 4, 5, 6, 39 / 5, 8])),
       (''/d/record_1/.zshifted_+0.400'', File (Text (''shifted'' @ [CHR 0x0A])))],
      [Rec_shifting ''/d/record_1'' 2, Ok_shifted 2 4 1], Inr (Some (2, 4, 1))) \<and>
   (19 / 5 :: real) \<noteq> 3 + delta_z ex_args"
  by (simp add: ex_args_def ex_fs_dup_def eval_more)

section \<open>Properties of the Spatial Corrector: the marker and idempotence\<close>

lemma grown_refl: "grown fs fs"
  by (simp add: grown_def)

lemma grown_trans: "grown fs fs1 \<Longrightarrow> grown fs1 fs2 \<Longrightarrow> grown fs fs2"
  unfolding grown_def by (intro conjI allI impI) (simp, blast, blast, simp)

lemma grown_same_shape:
  assumes "map fst fs' = map fst fs"
    and "\<And>p. isdir fs' p = isdir fs p" and "\<And>p. exists fs' p = exists fs p"
    and "\<And>p. isfile fs' p = isfile fs p"
  shows "grown fs fs'"
proof -
  have "isdir fs' = isdir fs" using assms(2) by (intro ext)
  then show ?thesis using assms by (simp add: grown_def all_paths_def)
qed

lemma isfile_not_isdir: "isfile fs p \<Longrightarrow> \<not> isdir fs p"
  by (auto simp: isfile_def isdir_def)

lemma isfile_exists: "isfile fs p \<Longrightarrow> exists fs p"
  by (auto simp: isfile_def exists_def split: option.splits)

lemma isdir_exists: "isdir fs p \<Longrightarrow> exists fs p"
  by (auto simp: isdir_def exists_def)

lemma grown_write_existing_file:
  assumes "isfile fs p"
  shows "grown fs (write_file fs p c)"
proof (rule grown_same_shape)
  have ex: "map_of fs p \<noteq> None" using assms by (auto simp: isfile_def split: option.splits)
  show "map fst (write_file fs p c) = map fst fs" using ex by (rule keys_write_existing)
  show "isdir (write_file fs p c) q = isdir fs q" for q
    using isfile_not_isdir [OF assms] by (auto simp only: isdir_write)
  show "exists (write_file fs p c) q = exists fs q" for q
    using isfile_exists [OF assms] by (auto simp only: exists_write)
  show "isfile (write_file fs p c) q = isfile fs q" for q
    using assms by (auto simp only: isfile_write)
qed

lemma remdups_snoc: "x \<notin> set xs \<Longrightarrow> remdups (xs @ [x]) = remdups xs @ [x]"
  by (induction xs) auto

lemma marker_path_nonempty: "marker_path rec dz \<noteq> []"
  by (auto simp: marker_path_def path_join_def)

lemma grown_write_marker:
  assumes "\<not> exists fs (marker_path rec dz)"
  shows "grown fs (write_file fs (marker_path rec dz) c)"
proof -
  let ?m = "marker_path rec dz"
  have none: "map_of fs ?m = None" using assms by (simp add: exists_def)
  then have notin: "?m \<notin> set (map fst fs)" by (simp add: map_of_eq_None_iff)
  have nd: "\<not> isdir fs ?m" using none by (simp add: isdir_def)
  have d: "isdir (write_file fs ?m c) q = isdir fs q" for q
    using nd by (auto simp only: isdir_write)
  have ap: "all_paths (write_file fs ?m c) = all_paths fs @ [?m]"
    using notin by (simp add: all_paths_def keys_write_new [OF none] remdups_snoc)
  have "isdir (write_file fs ?m c) = isdir fs" using d by (intro ext)
  then have f: "filter (isdir (write_file fs ?m c)) (all_paths (write_file fs ?m c)) =
             filter (isdir fs) (all_paths fs)"
    using nd by (simp add: ap)
  have e: "exists fs q \<longrightarrow> exists (write_file fs ?m c) q" for q
    by (simp only: exists_write) simp
  have i: "isfile (write_file fs ?m c) q \<longrightarrow>
             isfile fs q \<or> (q \<noteq> [] \<and> last q \<in> set ''0123456789'')" for q
    using last_marker_path [of rec dz] marker_path_nonempty [of rec dz]
    by (auto simp only: isfile_write)
  show ?thesis
    unfolding grown_def using d e i f by blast
qed

lemma skipped_mono:
  assumes "grown fs fs'" and "skipped a fs rec"
  shows "skipped a fs' rec"
proof -
  have l1: "last (path_join v ''sample_data.json'') = CHR ''n''" for v
    by (simp add: last_path_join)
  have l2: "last (path_join v ''sample_annotation.json'') = CHR ''n''" for v
    by (simp add: last_path_join)
  have nf: "\<not> isfile fs p \<Longrightarrow> last p = CHR ''n'' \<Longrightarrow> \<not> isfile fs' p" for p
    using assms(1) unfolding grown_def by auto
  show ?thesis
    using assms nf [OF _ l1] nf [OF _ l2] unfolding skipped_def grown_def by blast
qed

lemma record_dirs_grown:
  assumes "grown fs fs'"
  shows "record_dirs fs' croot = record_dirs fs croot"
proof -
  have sp: "filter (\<lambda>p. is_record_path croot p \<and> isdir g p) xs =
        filter (is_record_path croot) (filter (isdir g) xs)" for g xs
    by (induction xs) auto
  have "filter (isdir fs') (all_paths fs') = filter (isdir fs) (all_paths fs)"
    using assms by (simp add: grown_def)
  then show ?thesis
    unfolding record_dirs_def sp by simp
qed


lemma grown_lidar_loop:
  assumes "\<not> dry_run a" and "shift_lidar_entries a rec fs cnt sds = (fs', Inr cnt')"
  shows "grown fs fs'" and "\<And>q. exists fs' q = exists fs q" and "\<And>q. isfile fs' q = isfile fs q"
proof -
  note eff = lidar_loop_effect [OF assms]
  have m: "\<And>q. map_of fs' q =
        map_option (shift_node (point_dim a) (delta_z a)
          (count_list (resolved_paths fs (carla_root a) rec sds) q)) (map_of fs q)"
    using eff by blast
  show e: "exists fs' q = exists fs q" for q by (rule shape_of_effect(3) [OF m])
  show f: "isfile fs' q = isfile fs q" for q by (rule shape_of_effect(1) [OF m])
  show "grown fs fs'"
  proof (rule grown_same_shape)
    show "map fst fs' = map fst fs" using eff by blast
    show "isdir fs' p = isdir fs p" for p by (rule shape_of_effect(2) [OF m])
  qed (rule e, rule f)
qed

lemma process_record_step:
  assumes nf: "\<not> force a" and nd: "\<not> dry_run a"
    and pr: "process_record f a fs rec = (fs1, out, Inr x)"
  shows "grown fs fs1 \<and> skipped a fs1 rec"
proof (cases "skipped a fs rec")
  case True
  then have "fs1 = fs" using process_record_skipped [OF True, of f] pr by auto
  then show ?thesis using True by (simp add: grown_refl)
next
  case False
  let ?sdp = "path_join (path_join rec (version_dir a)) ''sample_data.json''"
  let ?sap = "path_join (path_join rec (version_dir a)) ''sample_annotation.json''"
  let ?m = "marker_path rec (delta_z a)"
  from False nf have nm: "\<not> exists fs ?m" and sapf: "isfile fs ?sap"
    by (auto simp: skipped_def)
  from pr obtain sd sa where
    cr: "correct_record f a fs rec ?m ?sap sd sa = (fs1, out, Inr x)"
    unfolding process_record_unskipped [OF False] by (auto split: sum.splits)
  have "\<exists>b p n. x = Some (b, p, n)"
  proof (cases x)
    case None
    then show ?thesis
      using cr by (auto simp: correct_record_def Let_def split: prod.splits sum.splits if_splits)
  next
    case (Some t)
    then show ?thesis by (cases t) auto
  qed
  then obtain b p n where x: "x = Some (b, p, n)" by blast
  let ?sa' = "map (corrected_ann f (delta_z a)) sa"
  from correct_record_nondry_success [OF nd cr [unfolded x]] obtain fsL where
    l: "shift_lidar_entries a rec fs (0, 0) (filter is_lidar_row sd) = (fsL, Inr (b, p))"
    and fs1: "fs1 = write_file (write_file fsL ?sap (Table ?sa')) ?m (Text (''shifted'' @ [CHR 0x0A]))"
    by blast
  note gl = grown_lidar_loop [OF nd l]
  have g1: "grown fs fsL" by (rule gl(1))
  have sapL: "isfile fsL ?sap" using sapf by (simp add: gl(3))
  let ?fs2 = "write_file fsL ?sap (Table ?sa')"
  have g2: "grown fsL ?fs2" using sapL by (rule grown_write_existing_file)
  have ne: "?m \<noteq> ?sap" by (rule marker_not_table)
  have nm2: "\<not> exists ?fs2 ?m"
    using nm ne by (simp add: exists_write gl(2))
  have g3: "grown ?fs2 fs1" unfolding fs1 using nm2 by (rule grown_write_marker)
  have g: "grown fs fs1" using g1 g2 g3 grown_trans by blast
  have "exists fs1 ?m" by (simp add: fs1 exists_write)
  then have "skipped a fs1 rec" using nf by (simp add: skipped_def)
  with g show ?thesis by simp
qed

lemma main_loop_invariant:
  assumes nf: "\<not> force a" and nd: "\<not> dry_run a"
  shows "main_loop f a fs out tot recs = (fs', out', Inr t) \<Longrightarrow>
           grown fs fs' \<and> (\<forall>rec \<in> set recs. skipped a fs' rec)"
proof (induction recs arbitrary: fs out tot)
  case Nil
  then show ?case by (simp add: grown_refl)
next
  case (Cons rec recs)
  obtain tb tp ta where tot: "tot = (tb, tp, ta)" by (cases tot)
  obtain fs1 o1 r1 where p: "process_record f a fs rec = (fs1, o1, r1)"
    by (cases "process_record f a fs rec")
  show ?case
  proof (cases r1)
    case (Inl e)
    then show ?thesis using Cons.prems p tot by simp
  next
    case (Inr x)
    from process_record_step [OF nf nd p [unfolded Inr]]
    have g1: "grown fs fs1" and s1: "skipped a fs1 rec" by simp_all
    have "\<exists>out1 tot1. main_loop f a fs1 out1 tot1 recs = (fs', out', Inr t)"
    proof (cases x)
      case None
      then show ?thesis using Cons.prems p Inr tot by auto
    next
      case (Some c)
      obtain b q n where "c = (b, q, n)" by (cases c)
      then show ?thesis using Cons.prems p Inr Some tot by auto
    qed
    then obtain out1 tot1 where "main_loop f a fs1 out1 tot1 recs = (fs', out', Inr t)" by blast
    from Cons.IH [OF this] have g2: "grown fs1 fs'" and s2: "\<forall>rec \<in> set recs. skipped a fs' rec"
      by simp_all
    have "skipped a fs' rec" using skipped_mono [OF g2 s1] .
    then show ?thesis using grown_trans [OF g1 g2] s2 by simp
  qed
qed

lemma all_skipped_noop:
  "\<forall>rec \<in> set recs. skipped a fs rec \<Longrightarrow>
     \<exists>out'. main_loop f a fs out tot recs = (fs, out', Inr tot)"
proof (induction recs arbitrary: out)
  case Nil
  then show ?case by simp
next
  case (Cons rec recs)
  obtain tb tp ta where tot: "tot = (tb, tp, ta)" by (cases tot)
  from Cons.prems have "skipped a fs rec" by simp
  from process_record_skipped [OF this, of f] obtain m where
    p: "process_record f a fs rec = (fs, [m], Inr None)" by blast
  from Cons.IH [of "out @ [m]"] Cons.prems obtain out' where
    "main_loop f a fs (out @ [m]) tot recs = (fs, out', Inr tot)" by auto
  then show ?case using p tot by auto
qed

lemma format_plus_3f_rounds:
  "(x < 0 \<longleftrightarrow> y < 0) \<Longrightarrow> round_half_even (\<bar>x\<bar> * 1000) = round_half_even (\<bar>y\<bar> * 1000) \<Longrightarrow>
     format_plus_3f x = format_plus_3f y"
  by (simp add: format_plus_3f_def)

text \<open>
  C2 (as amended). The marker of a record is named after the offset formatted with its
  sign and three decimals, so two offsets with the same sign that round to the same
  thousandth have the same marker. A record whose marker for the offset exists is skipped
  entirely when the force flag is not set. Therefore, when a run without the force flag
  has completed, a second run with the same arguments completes as well and leaves the
  file system (point files, annotation tables and every other path) exactly as the first
  run left it.
\<close>

theorem corrector_idempotent:
  assumes "\<not> force a" and "shift_carla_main f a fs = (fs1, out1, Inr t1)"
  shows "(\<exists>out2 t2. shift_carla_main f a fs1 = (fs1, out2, Inr t2)) \<and>
         (\<forall>fs0 rec. exists fs0 (marker_path rec (delta_z a)) \<longrightarrow>
            process_record f a fs0 rec = (fs0, [Skip_marker rec], Inr None)) \<and>
         (\<forall>rec dz'. (dz' < 0 \<longleftrightarrow> delta_z a < 0) \<and>
              round_half_even (\<bar>dz'\<bar> * 1000) = round_half_even (\<bar>delta_z a\<bar> * 1000) \<longrightarrow>
              marker_path rec dz' = marker_path rec (delta_z a))"
proof -
  have 1: "\<exists>out2 t2. shift_carla_main f a fs1 = (fs1, out2, Inr t2)"
  proof (cases "dry_run a")
    case True
    have "fs1 = fs" using main_dry [OF True, of f fs] assms(2) by simp
    then have "shift_carla_main f a fs1 = (fs1, out1, Inr t1)" using assms(2) by simp
    then show ?thesis by blast
  next
    case False
    let ?rds = "record_dirs fs (carla_root a)"
    from assms(2) have pd: "\<not> (point_dim a \<noteq> 4 \<and> point_dim a \<noteq> 5)"
      and rootd: "isdir fs (carla_root a)" and ne: "?rds \<noteq> []"
      by (auto simp: shift_carla_main_def Let_def split: if_splits)
    from assms(2) pd rootd ne obtain o1 where
      ml: "main_loop f a fs [Info_found (length ?rds), Info_args] (0, 0, 0) ?rds = (fs1, o1, Inr t1)"
      by (auto simp: shift_carla_main_def Let_def split: prod.splits sum.splits)
    from main_loop_invariant [OF assms(1) False ml]
    have g: "grown fs fs1" and sk: "\<forall>rec \<in> set ?rds. skipped a fs1 rec" by simp_all
    have rd: "record_dirs fs1 (carla_root a) = ?rds" using g by (rule record_dirs_grown)
    have rootd1: "isdir fs1 (carla_root a)" using g rootd by (simp add: grown_def)
    from all_skipped_noop [OF sk, of f "[Info_found (length ?rds), Info_args]" "(0, 0, 0)"]
    obtain out' where
      "main_loop f a fs1 [Info_found (length ?rds), Info_args] (0, 0, 0) ?rds = (fs1, out', Inr (0, 0, 0))"
      by blast
    then show ?thesis
      using pd rootd1 ne rd by (simp add: shift_carla_main_def Let_def)
  qed
  have 2: "process_record f a fs0 rec = (fs0, [Skip_marker rec], Inr None)"
    if "exists fs0 (marker_path rec (delta_z a))" for fs0 rec
    using that assms(1) by (simp add: process_record_def Let_def)
  have 3: "marker_path rec dz' = marker_path rec (delta_z a)"
    if "(dz' < 0 \<longleftrightarrow> delta_z a < 0) \<and>
        round_half_even (\<bar>dz'\<bar> * 1000) = round_half_even (\<bar>delta_z a\<bar> * 1000)" for rec dz'
    using that format_plus_3f_rounds [of dz' "delta_z a"] by (simp add: marker_path_def)
  show ?thesis using 1 2 3 by blast
qed


theorem corrector_idempotent_witness:
  "\<not> force ex_args \<and>
   shift_carla_main (\<lambda>s. None) ex_args ex_fs =
     (ex_fs_done,
      [Info_found 1, Info_args, Rec_shifting ''/d/record_1'' 1, Ok_shifted 1 2 1,
       Summary_shifted 1 2 1], Inr (1, 2, 1)) \<and>
   shift_carla_main (\<lambda>s. None) ex_args ex_fs_done =
     (ex_fs_done,
      [Info_found 1, Info_args, Skip_marker ''/d/record_1'', Summary_shifted 0 0 0],
      Inr (0, 0, 0))"
proof -
  have h: "\<not> force ex_args" by (simp add: ex_args_def)
  have r1: "shift_carla_main (\<lambda>s. None) ex_args ex_fs =
     (ex_fs_done,
      [Info_found 1, Info_args, Rec_shifting ''/d/record_1'' 1, Ok_shifted 1 2 1,
       Summary_shifted 1 2 1], Inr (1, 2, 1))"
    by (simp add: ex_args_def ex_fs_def ex_fs_done_def shift_carla_main_def eval_more)
  have r2: "shift_carla_main (\<lambda>s. None) ex_args ex_fs_done =
     (ex_fs_done,
      [Info_found 1, Info_args, Skip_marker ''/d/record_1'', Summary_shifted 0 0 0],
      Inr (0, 0, 0))"
    by (simp add: ex_args_def ex_fs_done_def shift_carla_main_def eval_more)
  show ?thesis
    using h r1 r2 corrector_idempotent [OF h r1] by simp
qed

text \<open>
  The claim as stated fails in its first part: the marker name does not encode the exact
  offset. The offsets \<open>0.4\<close> and \<open>0.4004\<close> give the same marker, and a record
  corrected with the first is skipped by a run with the second.
\<close>

theorem marker_name_counterexample:
  "(2 / 5 :: real) \<noteq> 4004 / 10000 \<and>
   marker_path ''/d/record_1'' (2 / 5) = ''/d/record_1/.zshifted_+0.400'' \<and>
   marker_path ''/d/record_1'' (4004 / 10000) = ''/d/record_1/.zshifted_+0.400'' \<and>
   process_record (\<lambda>s. None) (ex_args\<lparr>delta_z := 4004 / 10000\<rparr>) ex_fs_done ''/d/record_1'' =
     (ex_fs_done, [Skip_marker ''/d/record_1''], Inr None)"
  by (simp add: ex_args_def ex_fs_done_def eval_more)

end
